theory Spec2Isabelle
  imports Complex_Main
begin

section \<open>Text fields\<close>

text \<open>
  The Python sources work on \<open>str\<close> values read from a database row or a CSV file.
  They are embedded as Isabelle strings, one character for one code point; on ASCII text
  (every code point below 128, the predicate \<open>ascii\<close> below) the functions below
  are Python's \<open>str.isspace\<close>, \<open>str.isdigit\<close>, \<open>str.strip\<close>, \<open>str.lower\<close>,
  \<open>str.upper\<close>, \<open>str.count\<close> and the substring test \<open>sub in s\<close>.
\<close>

definition isspace :: "char \<Rightarrow> bool" where
  \<comment> \<open>\<open>str.isspace\<close> on ASCII: code points 9 to 13 and 28 to 32\<close>
  "isspace c = (let n = (of_char c :: nat) in (9 \<le> n \<and> n \<le> 13) \<or> (28 \<le> n \<and> n \<le> 32))"

definition isdigit :: "char \<Rightarrow> bool" where
  \<comment> \<open>\<open>str.isdigit\<close> on ASCII: the digits 0 to 9\<close>
  "isdigit c = (let n = (of_char c :: nat) in 48 \<le> n \<and> n \<le> 57)"

definition lower_char :: "char \<Rightarrow> char" where
  \<comment> \<open>\<open>str.lower\<close> on an ASCII character: A to Z become a to z\<close>
  "lower_char c =
     (let n = (of_char c :: nat) in if 65 \<le> n \<and> n \<le> 90 then char_of (n + 32) else c)"

definition upper_char :: "char \<Rightarrow> char" where
  \<comment> \<open>\<open>str.upper\<close> on an ASCII character: a to z become A to Z\<close>
  "upper_char c =
     (let n = (of_char c :: nat) in if 97 \<le> n \<and> n \<le> 122 then char_of (n - 32) else c)"

definition strip :: "string \<Rightarrow> string" where
  "strip s = rev (dropWhile isspace (rev (dropWhile isspace s)))"

definition lower :: "string \<Rightarrow> string" where
  "lower s = map lower_char s"

definition upper :: "string \<Rightarrow> string" where
  "upper s = map upper_char s"

definition digits_of :: "string \<Rightarrow> string" where
  \<comment> \<open>\<open>''.join(c for c in s if c.isdigit())\<close>, also written \<open>"".join(filter(str.isdigit, s))\<close>\<close>
  "digits_of s = filter isdigit s"

fun contains :: "string \<Rightarrow> string \<Rightarrow> bool" where
  \<comment> \<open>\<open>contains sub s\<close> is Python's \<open>sub in s\<close>\<close>
  "contains sub [] = (sub = [])"
| "contains sub (c # cs) = (take (length sub) (c # cs) = sub \<or> contains sub cs)"

definition after_last :: "char \<Rightarrow> string \<Rightarrow> string" where
  \<comment> \<open>\<open>s.split(c)[-1]\<close>: the text after the last occurrence of \<open>c\<close>, all of \<open>s\<close> when there is none\<close>
  "after_last c s = rev (takeWhile (\<lambda>x. x \<noteq> c) (rev s))"

text \<open>
  The theorems about the content of a field are stated for ASCII text, where the functions
  above are Python's. Beyond ASCII they are not: \<open>str.strip\<close> also removes U+0085 and
  U+00A0, \<open>str.isdigit\<close> also holds of the superscript digits, \<open>str.lower\<close> also changes
  accented capitals, and \<open>str.upper\<close> can change the length of a string.
\<close>

definition ascii :: "string \<Rightarrow> bool" where
  "ascii s = list_all (\<lambda>c. (of_char c :: nat) < 128) s"

definition ascii_field :: "string option \<Rightarrow> bool" where
  "ascii_field f = (case f of None \<Rightarrow> True | Some s \<Rightarrow> ascii s)"

text \<open>
  \<open>hashlib.sha256(s.encode('utf-8')).hexdigest()\<close> is a library function. Its value is kept
  symbolic: \<open>SHA256 s\<close> stands for the digest of \<open>s\<close>. A hexadecimal digest has 64 characters,
  so a digest is always true in a Python condition.
\<close>

datatype digest = SHA256 string

text \<open>
  A field read from the cursor is a string or \<open>None\<close>. The sources clean each field with
  \<open>row[i].strip() if row[i] else None\<close>; a later test \<open>if field\<close> is false for \<open>None\<close> and
  for the empty string.
\<close>

definition clean_field :: "string option \<Rightarrow> string option" where
  "clean_field f = (case f of None \<Rightarrow> None | Some s \<Rightarrow> if s = [] then None else Some (strip s))"

definition truthy :: "string option \<Rightarrow> bool" where
  "truthy f = (case f of None \<Rightarrow> False | Some s \<Rightarrow> s \<noteq> [])"

definition py_str :: "string option \<Rightarrow> string" where
  \<comment> \<open>\<open>str(x)\<close> for a string or \<open>None\<close>\<close>
  "py_str f = (case f of None \<Rightarrow> ''None'' | Some s \<Rightarrow> s)"

section \<open>Data model\<close>

text \<open>
  A row of the stored procedure: customer number, first name, last name, contact GUID, email,
  phone, zip code, state code, and a ninth brand column in the brand-aware procedure
  (\<open>row_brand = None\<close> when the row has eight columns only).
\<close>

record raw_row =
  row_cust_no :: "string option"
  row_first_name :: "string option"
  row_last_name :: "string option"
  row_contact_guid :: "string option"
  row_email :: "string option"
  row_phone :: "string option"
  row_zip_code :: "string option"
  row_state_code :: "string option"
  row_brand :: "string option option"

definition ascii_row :: "raw_row \<Rightarrow> bool" where
  "ascii_row row =
     (ascii_field (row_cust_no row) \<and> ascii_field (row_first_name row)
      \<and> ascii_field (row_last_name row) \<and> ascii_field (row_contact_guid row)
      \<and> ascii_field (row_email row) \<and> ascii_field (row_phone row)
      \<and> ascii_field (row_zip_code row) \<and> ascii_field (row_state_code row)
      \<and> (case row_brand row of None \<Rightarrow> True | Some b \<Rightarrow> ascii_field b))"

text \<open>
  A user identifier, as the dictionaries of the main script and the \<open>UserIdentifier\<close>
  messages of the other two. The four parts of \<open>address_info\<close> are optional because the CSV
  uploader sets each one separately; the two database scripts fill all four or emit nothing.
\<close>

datatype user_identifier =
    Hashed_email digest
  | Hashed_phone_number digest
  | Address_info "digest option" "digest option" "string option" "string option"

record operation =
  user_identifiers :: "user_identifier list"
  op_cust_no :: "string option"
  op_contact_guid :: string
  op_brand :: string

text \<open>
  The \<open>phonenumbers\<close> library is not part of the repository; the scripts use three of its
  functions, taken here as parameters. \<open>parse\<close> returns \<open>None\<close> where the library raises
  \<open>NumberParseException\<close>; its second argument is the default region, \<open>None\<close> when the caller
  gives none.
\<close>

record 'p phonenumbers =
  parse :: "string \<Rightarrow> string option \<Rightarrow> 'p option"
  is_valid_number :: "'p \<Rightarrow> bool"
  format_e164 :: "'p \<Rightarrow> string"

section \<open>The main script: \<open>Workspace_customer_data.py\<close>\<close>

text \<open>
  The attributes of \<open>GoogleAdsUploader\<close> that row processing and the upload read or write.
  \<open>googleads_client\<close> is true once the client is initialised (it is \<open>None\<close> before).
  The type parameter is the type of a prepared operation.
\<close>

record 'op uploader =
  brand :: "string option"
  googleads_client :: bool
  total_rows_processed :: nat
  email_processed_count :: nat
  phone_processed_count :: nat
  address_processed_count :: nat
  rows_with_any_id_count :: nat
  processed_operations :: "'op list"

definition default_region :: string where
  "default_region = ''US''"

definition problem_chars :: "char list" where
  "problem_chars = [CHR ''/'', CHR ''&'', CHR 0x22, CHR '';'', CHR '':'', CHR ''#'', CHR ''*'']"

definition init_uploader :: "string option \<Rightarrow> bool \<Rightarrow> 'op uploader" where
  \<comment> \<open>the counters of \<open>__init__\<close>; the client is set by \<open>initialize_google_ads_client\<close>\<close>
  "init_uploader b client = \<lparr>brand = b, googleads_client = client,
     total_rows_processed = 0, email_processed_count = 0, phone_processed_count = 0,
     address_processed_count = 0, rows_with_any_id_count = 0, processed_operations = []\<rparr>"

definition row_hashed_email :: "string option \<Rightarrow> digest option" where
  \<comment> \<open>"Process email": the argument is \<open>email_raw\<close>\<close>
  "row_hashed_email email_raw =
     (case email_raw of
        None \<Rightarrow> None
      | Some e \<Rightarrow>
          if e \<noteq> [] \<and> CHR ''@'' \<in> set e \<and> CHR ''.'' \<in> set e then
            (let normalized_email = strip (lower e) in
             if length normalized_email \<ge> 6 \<and> count_list normalized_email (CHR ''@'') = 1
             then Some (SHA256 normalized_email) else None)
          else None)"

definition parse_clean_phone :: "'p phonenumbers \<Rightarrow> string \<Rightarrow> 'p option" where
  \<comment> \<open>the nested \<open>try\<close> of "Process phone number": parse with the default region, then with a
      leading plus sign when the digits start with 1 and are more than ten\<close>
  "parse_clean_phone lib clean_phone =
     (case parse lib clean_phone (Some default_region) of
        Some phone_obj \<Rightarrow> Some phone_obj
      | None \<Rightarrow>
          if take 1 clean_phone = ''1'' \<and> length clean_phone > 10
          then parse lib (CHR ''+'' # clean_phone) None
          else None)"

definition row_hashed_phone :: "'p phonenumbers \<Rightarrow> string option \<Rightarrow> digest option" where
  \<comment> \<open>"Process phone number": the argument is \<open>phone_raw\<close>\<close>
  "row_hashed_phone lib phone_raw =
     (case phone_raw of
        None \<Rightarrow> None
      | Some p \<Rightarrow>
          if p \<noteq> [] \<and> length p \<ge> 10 then
            (let clean_phone = digits_of p in
             if clean_phone \<noteq> [] then
               (case parse_clean_phone lib clean_phone of
                  None \<Rightarrow> None
                | Some phone_obj \<Rightarrow>
                    if is_valid_number lib phone_obj
                    then Some (SHA256 (format_e164 lib phone_obj)) else None)
             else None)
          else None)"

text \<open>
  "Process name and address": the result is \<open>(hashed_first_name, hashed_last_name,
  has_valid_name, skip_name_for_address)\<close>.
\<close>

definition row_names ::
  "string option \<Rightarrow> string option \<Rightarrow> digest option \<times> digest option \<times> bool \<times> bool" where
  "row_names first_name_raw last_name_raw =
     (if truthy first_name_raw \<and> truthy last_name_raw then
        (let first_name = strip (lower (the first_name_raw));
             last_name = strip (lower (the last_name_raw));
             has_problem_chars = (\<exists>c \<in> set problem_chars. c \<in> set (first_name @ last_name))
         in if \<not> has_problem_chars \<and> length first_name \<ge> 2 \<and> length last_name \<ge> 2
            then (Some (SHA256 first_name), Some (SHA256 last_name), True, False)
            else (None, None, False, True))
      else (None, None, False, False))"

text \<open>
  "Process US address components": the result is \<open>(country_code_to_use, postal_code_to_use)\<close>.
  The state code of the row is read into \<open>state_code_raw\<close> and not used afterwards.
\<close>

definition row_postal :: "string option \<Rightarrow> string option \<times> string option" where
  "row_postal zip_code_raw =
     (case zip_code_raw of
        None \<Rightarrow> (None, None)
      | Some z \<Rightarrow>
          if z \<noteq> [] \<and> length z \<ge> 5 then
            (let clean_zip = take 5 (digits_of z) in
             (Some ''US'', if length clean_zip = 5 then Some clean_zip else None))
          else (None, None))"

definition row_identifiers ::
  "digest option \<Rightarrow> digest option \<Rightarrow> digest option \<Rightarrow> digest option \<Rightarrow>
   string option \<Rightarrow> string option \<Rightarrow> bool \<Rightarrow> user_identifier list" where
  \<comment> \<open>"Create user identifiers for Google Ads"\<close>
  "row_identifiers hashed_email hashed_phone hashed_first_name hashed_last_name
     country_code_to_use postal_code_to_use skip_name_for_address =
     (case hashed_email of None \<Rightarrow> [] | Some h \<Rightarrow> [Hashed_email h]) @
     (case hashed_phone of None \<Rightarrow> [] | Some h \<Rightarrow> [Hashed_phone_number h]) @
     (if truthy country_code_to_use \<and> truthy postal_code_to_use \<and> hashed_first_name \<noteq> None
         \<and> hashed_last_name \<noteq> None \<and> \<not> skip_name_for_address
      then [Address_info hashed_first_name hashed_last_name country_code_to_use postal_code_to_use]
      else [])"

definition brand_raw_of :: "raw_row \<Rightarrow> string option" where
  \<comment> \<open>\<open>brand_raw\<close>: the ninth column, trimmed and lowercased, when the row has one\<close>
  "brand_raw_of row =
     (case row_brand row of
        None \<Rightarrow> None
      | Some b \<Rightarrow> (case b of None \<Rightarrow> None
                   | Some s \<Rightarrow> if s = [] then None else Some (lower (strip s))))"

definition skipped_by_brand :: "'op uploader \<Rightarrow> raw_row \<Rightarrow> bool" where
  "skipped_by_brand u row =
     (truthy (brand u) \<and> brand u \<noteq> Some ''default'' \<and> truthy (brand_raw_of row)
      \<and> brand_raw_of row \<noteq> brand u)"

definition process_customer_row ::
  "'p phonenumbers \<Rightarrow> operation uploader \<Rightarrow> raw_row \<Rightarrow> operation uploader" where
  "process_customer_row lib u row =
     (let cust_no = clean_field (row_cust_no row);
          first_name_raw = clean_field (row_first_name row);
          last_name_raw = clean_field (row_last_name row);
          contact_guid = row_contact_guid row;
          email_raw = clean_field (row_email row);
          phone_raw = clean_field (row_phone row);
          zip_code_raw = clean_field (row_zip_code row);
          brand_raw = brand_raw_of row
      in if skipped_by_brand u row then u
         else
           (let hashed_email = row_hashed_email email_raw;
                hashed_phone = row_hashed_phone lib phone_raw;
                (hashed_first_name, hashed_last_name, has_valid_name, skip_name_for_address) =
                   row_names first_name_raw last_name_raw;
                (country_code_to_use, postal_code_to_use) = row_postal zip_code_raw;
                ids = row_identifiers hashed_email hashed_phone hashed_first_name
                        hashed_last_name country_code_to_use postal_code_to_use
                        skip_name_for_address;
                u1 = u\<lparr>email_processed_count :=
                         email_processed_count u + (if hashed_email \<noteq> None then 1 else 0),
                       phone_processed_count :=
                         phone_processed_count u + (if hashed_phone \<noteq> None then 1 else 0),
                       address_processed_count :=
                         address_processed_count u +
                           (if postal_code_to_use \<noteq> None \<and> has_valid_name
                               \<and> \<not> skip_name_for_address then 1 else 0)\<rparr>
            in if ids \<noteq> [] then
                 u1\<lparr>rows_with_any_id_count := rows_with_any_id_count u1 + 1,
                    processed_operations := processed_operations u1 @
                      [\<lparr>user_identifiers = ids, op_cust_no = cust_no,
                        op_contact_guid = py_str contact_guid,
                        op_brand = (if truthy brand_raw then the brand_raw
                                    else ''unspecified'')\<rparr>]\<rparr>
               else u1))"

definition process_rows ::
  "'p phonenumbers \<Rightarrow> operation uploader \<Rightarrow> raw_row list \<Rightarrow> operation uploader" where
  \<comment> \<open>the row loop of \<open>fetch_and_process_customer_data\<close>, over all fetched pages\<close>
  "process_rows lib u rows =
     foldl (\<lambda>u row. process_customer_row lib
                        (u\<lparr>total_rows_processed := total_rows_processed u + 1\<rparr>) row)
       u rows"

text \<open>The identifier list that \<open>process_customer_row\<close> builds for a row.\<close>

definition row_user_identifiers :: "'p phonenumbers \<Rightarrow> raw_row \<Rightarrow> user_identifier list" where
  "row_user_identifiers lib row =
     (let (hashed_first_name, hashed_last_name, has_valid_name, skip_name_for_address) =
             row_names (clean_field (row_first_name row)) (clean_field (row_last_name row));
          (country_code_to_use, postal_code_to_use) = row_postal (clean_field (row_zip_code row))
      in row_identifiers (row_hashed_email (clean_field (row_email row)))
           (row_hashed_phone lib (clean_field (row_phone row)))
           hashed_first_name hashed_last_name country_code_to_use postal_code_to_use
           skip_name_for_address)"

section \<open>The earlier script: \<open>attached_assets/Workspace_customer_data.py\<close>\<close>

text \<open>
  This script has the same class with the row processing split into methods; a prepared
  operation is an \<open>OfflineUserDataJobOperation\<close> whose only content is the list of user
  identifiers. It has no brand filter (the \<open>brand\<close> attribute is not read).
\<close>

definition process_email :: "string option \<Rightarrow> digest option" where
  "process_email email_raw =
     (if \<not> truthy email_raw then None
      else
        (let email_norm = strip (lower (the email_raw)) in
         if CHR ''@'' \<in> set email_norm \<and> CHR ''.'' \<in> set (after_last (CHR ''@'') email_norm)
         then Some (SHA256 email_norm) else None))"

definition process_phone :: "'p phonenumbers \<Rightarrow> string option \<Rightarrow> digest option" where
  "process_phone lib phone_raw =
     (if \<not> truthy phone_raw then None
      else
        (let digits_only = digits_of (the phone_raw) in
         if length digits_only \<ge> 7 then
           (case parse lib (the phone_raw) (Some default_region) of
              None \<Rightarrow> None
            | Some phone_parsed \<Rightarrow>
                if is_valid_number lib phone_parsed then
                  (let phone_e164 = format_e164 lib phone_parsed in
                   if phone_e164 \<noteq> [] \<and> take 1 phone_e164 = ''+''
                   then Some (SHA256 phone_e164) else None)
                else None)
         else None))"

definition process_name :: "string \<Rightarrow> digest option \<times> bool" where
  "process_name name_raw =
     (let name_norm = strip (lower name_raw) in
      if (\<exists>c \<in> set problem_chars. c \<in> set name_norm) \<or> length name_norm = 0
      then (None, False) else (Some (SHA256 name_norm), True))"

text \<open>
  The Google Ads client library is not part of the repository. \<open>_create_google_ads_operation\<close>
  calls it to build the identifier messages and then, after
  \<open>self.rows_with_any_id_count += 1\<close>, to build the operation that it appends. Any of these
  calls may raise; the \<open>except\<close> of \<open>_process_customer_row\<close> logs the exception and the row is
  left behind. The outcome of the calls for one row is a parameter: all return, one raises
  while the identifiers are built (no counter of this method has changed yet), or one raises
  while the operation is built (the counters have changed, nothing is appended).
\<close>

datatype client_outcome = Returns | Raises_building_identifier | Raises_building_operation

definition create_google_ads_operation ::
  "client_outcome \<Rightarrow> user_identifier list uploader \<Rightarrow> digest option \<Rightarrow> digest option \<Rightarrow>
   digest option \<Rightarrow> digest option \<Rightarrow> string option \<Rightarrow> string option \<Rightarrow> bool \<Rightarrow>
   user_identifier list uploader" where
  "create_google_ads_operation outcome u hashed_email hashed_phone hashed_first_name
     hashed_last_name country_code postal_code skip_name_for_address =
     (if \<not> googleads_client u then u
      else
        (let has_address = (\<not> skip_name_for_address \<and> hashed_first_name \<noteq> None
                             \<and> hashed_last_name \<noteq> None \<and> truthy country_code
                             \<and> truthy postal_code);
             ids = (case hashed_email of None \<Rightarrow> [] | Some h \<Rightarrow> [Hashed_email h]) @
                   (case hashed_phone of None \<Rightarrow> [] | Some h \<Rightarrow> [Hashed_phone_number h]) @
                   (if has_address
                    then [Address_info hashed_first_name hashed_last_name country_code postal_code]
                    else [])
         in if ids = [] then u
            else if outcome = Raises_building_identifier then u
            else
              (let u1 = (if has_address
                         then u\<lparr>address_processed_count := address_processed_count u + 1\<rparr>
                         else u);
                   u2 = u1\<lparr>rows_with_any_id_count := rows_with_any_id_count u1 + 1\<rparr>
               in if outcome = Raises_building_operation then u2
                  else u2\<lparr>processed_operations := processed_operations u2 @ [ids]\<rparr>)))"

text \<open>
  The name fields of a row: \<open>(hashed_first_name, hashed_last_name, skip_name_for_address)\<close>.
\<close>

definition names_attached ::
  "string option \<Rightarrow> string option \<Rightarrow> digest option \<times> digest option \<times> bool" where
  "names_attached first_name_raw last_name_raw =
     (if \<not> truthy first_name_raw \<or> \<not> truthy last_name_raw then (None, None, True)
      else
        (let (hashed_first_name, first_valid) = process_name (the first_name_raw);
             (hashed_last_name, last_valid) = process_name (the last_name_raw)
         in (hashed_first_name, hashed_last_name, \<not> first_valid \<or> \<not> last_valid)))"

definition country_attached :: "string option \<Rightarrow> string option" where
  \<comment> \<open>"Process location data", the state code: \<open>country_code_to_use\<close>\<close>
  "country_attached state_code_raw =
     (if truthy state_code_raw then
        (let state_processed = upper (strip (the state_code_raw)) in
         if length state_processed = 2 then Some ''US'' else None)
      else None)"

definition postal_attached :: "string option \<Rightarrow> string option" where
  \<comment> \<open>"Process location data", the zip code: \<open>postal_code_to_use\<close>\<close>
  "postal_attached zip_code_raw =
     (if truthy zip_code_raw then
        (let zip_processed = digits_of (the zip_code_raw) in
         if length zip_processed \<ge> 5 then Some (take 5 zip_processed) else None)
      else None)"

definition process_customer_row_attached ::
  "'p phonenumbers \<Rightarrow> client_outcome \<Rightarrow> user_identifier list uploader \<Rightarrow> raw_row \<Rightarrow>
   user_identifier list uploader" where
  "process_customer_row_attached lib outcome u row =
     (let first_name_raw = clean_field (row_first_name row);
          last_name_raw = clean_field (row_last_name row);
          email_raw = clean_field (row_email row);
          phone_raw = clean_field (row_phone row);
          zip_code_raw = clean_field (row_zip_code row);
          state_code_raw = clean_field (row_state_code row);
          hashed_email = process_email email_raw;
          hashed_phone = process_phone lib phone_raw;
          u1 = u\<lparr>email_processed_count :=
                   email_processed_count u + (if hashed_email \<noteq> None then 1 else 0),
                 phone_processed_count :=
                   phone_processed_count u + (if hashed_phone \<noteq> None then 1 else 0)\<rparr>;
          (hashed_first_name, hashed_last_name, skip_name_for_address) =
             names_attached first_name_raw last_name_raw
      in create_google_ads_operation outcome u1 hashed_email hashed_phone hashed_first_name
           hashed_last_name (country_attached state_code_raw) (postal_attached zip_code_raw)
           skip_name_for_address)"

text \<open>
  The row loop of \<open>fetch_and_process_customer_data\<close>; \<open>outcomes n\<close> is the outcome of the
  client calls for the \<open>n\<close>-th row fetched, counted from 1 as \<open>total_rows_processed\<close> is.
\<close>

definition process_rows_attached ::
  "'p phonenumbers \<Rightarrow> (nat \<Rightarrow> client_outcome) \<Rightarrow> user_identifier list uploader \<Rightarrow>
   raw_row list \<Rightarrow> user_identifier list uploader" where
  "process_rows_attached lib outcomes u rows =
     foldl (\<lambda>u row. process_customer_row_attached lib (outcomes (total_rows_processed u + 1))
                        (u\<lparr>total_rows_processed := total_rows_processed u + 1\<rparr>) row)
       u rows"

text \<open>The identifier list that \<open>process_customer_row_attached\<close> hands on for a row.\<close>

definition row_user_identifiers_attached ::
  "'p phonenumbers \<Rightarrow> raw_row \<Rightarrow> user_identifier list" where
  "row_user_identifiers_attached lib row =
     (let (hashed_first_name, hashed_last_name, skip_name_for_address) =
             names_attached (clean_field (row_first_name row)) (clean_field (row_last_name row));
          country_code = country_attached (clean_field (row_state_code row));
          postal_code = postal_attached (clean_field (row_zip_code row))
      in (case process_email (clean_field (row_email row)) of
            None \<Rightarrow> [] | Some h \<Rightarrow> [Hashed_email h]) @
         (case process_phone lib (clean_field (row_phone row)) of
            None \<Rightarrow> [] | Some h \<Rightarrow> [Hashed_phone_number h]) @
         (if \<not> skip_name_for_address \<and> hashed_first_name \<noteq> None \<and> hashed_last_name \<noteq> None
             \<and> truthy country_code \<and> truthy postal_code
          then [Address_info hashed_first_name hashed_last_name country_code postal_code]
          else []))"

section \<open>The CSV uploader: \<open>your_python_uploader.py\<close>\<close>

text \<open>
  A customer is a row of \<open>csv.DictReader\<close>: a dictionary from column names to strings.
  \<open>hash_data\<close> returns the empty string for an absent or empty value (\<open>None\<close> here) and the
  digest of the trimmed, lowercased value otherwise. An operation is the list of user
  identifiers of its \<open>create\<close> field.
\<close>

definition hash_data :: "string option \<Rightarrow> digest option" where
  "hash_data data = (if \<not> truthy data then None else Some (SHA256 (lower (strip (the data)))))"

definition customer_operation :: "(string \<rightharpoonup> string) \<Rightarrow> user_identifier list" where
  \<comment> \<open>the body of the loop of \<open>create_user_data_operations\<close>\<close>
  "customer_operation customer =
     (if truthy (customer ''email'') then [Hashed_email (the (hash_data (customer ''email'')))]
      else []) @
     (if truthy (customer ''phone'')
      then [Hashed_phone_number (the (hash_data (customer ''phone'')))] else []) @
     (if \<exists>field \<in> set [''first_name'', ''last_name'', ''country'', ''zip''].
           truthy (customer field)
      then [Address_info
              (if truthy (customer ''first_name'') then hash_data (customer ''first_name'')
               else None)
              (if truthy (customer ''last_name'') then hash_data (customer ''last_name'')
               else None)
              (if truthy (customer ''country'') then Some (upper (the (customer ''country'')))
               else None)
              (if truthy (customer ''zip'') then customer ''zip'' else None)]
      else [])"

definition create_user_data_operations ::
  "(string \<rightharpoonup> string) list \<Rightarrow> user_identifier list list" where
  "create_user_data_operations customers = map customer_operation customers"

definition ascii_customer :: "(string \<rightharpoonup> string) \<Rightarrow> bool" where
  "ascii_customer customer =
     list_all (\<lambda>field. ascii_field (customer field))
       [''email'', ''phone'', ''first_name'', ''last_name'', ''country'', ''zip'']"

section \<open>The remote service and the configuration\<close>

text \<open>
  An exception raised by a call of the Google Ads client: a \<open>GoogleAdsException\<close> with the
  text of its \<open>failure\<close> attribute, or any other exception; both carry the text that
  \<open>str(e)\<close> gives.
\<close>

datatype error = GoogleAdsException string string | OtherException string

fun failure :: "error \<Rightarrow> string" where
  "failure (GoogleAdsException f s) = f"
| "failure (OtherException s) = []"

fun str :: "error \<Rightarrow> string" where
  "str (GoogleAdsException f s) = s"
| "str (OtherException s) = s"

text \<open>
  The behaviour of the service during one run. \<open>add_operations k a\<close> is the outcome of
  submitting batch \<open>k\<close> for the \<open>a\<close>-th time (both counted from 0): \<open>None\<close> when the call
  returns, the exception when it raises. Log lines and the sleeps between calls are left out;
  the calls made are recorded as a list of events.
\<close>

record service =
  get_service_ok :: bool
  create_job :: "error + string"
  add_operations :: "nat \<Rightarrow> nat \<Rightarrow> error option"
  run_job :: "error option"

record config =
  API_BATCH_SIZE :: int
  API_RETRY_COUNT :: int

datatype event = Create_job | Add_operations nat nat | Run_job

definition py_slice :: "'a list \<Rightarrow> int \<Rightarrow> int \<Rightarrow> 'a list" where
  \<comment> \<open>\<open>xs[a:b]\<close>: a negative index counts from the end, and both are clipped to the list\<close>
  "py_slice xs a b =
     (let n = int (length xs);
          lo = (if a < 0 then max (a + n) 0 else min a n);
          hi = (if b < 0 then max (b + n) 0 else min b n)
      in take (nat (hi - lo)) (drop (nat lo) xs))"

function py_range :: "int \<Rightarrow> int \<Rightarrow> int \<Rightarrow> int list" where
  \<comment> \<open>\<open>range(i, n, step)\<close> for a positive step; the callers treat the other steps\<close>
  "py_range i n step = (if 0 < step \<and> i < n then i # py_range (i + step) n step else [])"
  by pat_completeness auto
termination
  by (relation "measure (\<lambda>(i, n, step). nat (n - i))") auto

declare py_range.simps [simp del]

section \<open>The upload of the main script\<close>

text \<open>
  The retry loop of one batch, over the attempts still to make: the result is whether the
  batch was added and the attempts made. An exception whose text contains
  \<open>ConcurrentModificationException\<close> goes on to the next attempt; any other one leaves the
  loop.
\<close>

fun add_with_retries :: "(nat \<Rightarrow> error option) \<Rightarrow> nat list \<Rightarrow> bool \<times> nat list" where
  "add_with_retries add [] = (False, [])"
| "add_with_retries add (attempt # rest) =
     (case add attempt of
        None \<Rightarrow> (True, [attempt])
      | Some e \<Rightarrow>
          if contains ''ConcurrentModificationException'' (str e)
          then (let (success, made) = add_with_retries add rest in (success, attempt # made))
          else (False, [attempt]))"

definition batches_count :: "'a list \<Rightarrow> int \<Rightarrow> int" where
  "batches_count ops batch_size = (int (length ops) + batch_size - 1) div batch_size"

definition current_batch :: "'a list \<Rightarrow> int \<Rightarrow> nat \<Rightarrow> 'a list" where
  "current_batch ops batch_size batch_num =
     (let start_idx = int batch_num * batch_size;
          end_idx = min (start_idx + batch_size) (int (length ops))
      in py_slice ops start_idx end_idx)"

definition batches :: "'a list \<Rightarrow> int \<Rightarrow> 'a list list" where
  \<comment> \<open>the batches of the loop \<open>for batch_num in range(batches_count)\<close>, in order\<close>
  "batches ops batch_size =
     map (current_batch ops batch_size) [0..<nat (batches_count ops batch_size)]"

definition batch_results :: "config \<Rightarrow> service \<Rightarrow> 'a list \<Rightarrow> (bool \<times> nat list) list" where
  \<comment> \<open>for each batch in order: \<open>success\<close> after its retry loop, and the attempts made\<close>
  "batch_results cfg svc ops =
     map (\<lambda>batch_num. add_with_retries (add_operations svc batch_num)
                         [0..<nat (API_RETRY_COUNT cfg)])
       [0..<nat (batches_count ops (API_BATCH_SIZE cfg))]"

definition batch_events :: "(bool \<times> nat list) list \<Rightarrow> event list" where
  "batch_events results =
     concat (map (\<lambda>(batch_num, (success, made)). map (Add_operations batch_num) made)
               (zip [0..<length results] results))"

definition upload_to_google_ads ::
  "config \<Rightarrow> service \<Rightarrow> 'a uploader \<Rightarrow> bool \<times> event list" where
  "upload_to_google_ads cfg svc u =
     (if \<not> googleads_client u then (False, [])
      else if processed_operations u = [] then (True, [])
      else if \<not> get_service_ok svc then (False, [])
      else
        (case create_job svc of
           Inl e \<Rightarrow> (False, [Create_job])
         | Inr resource_name \<Rightarrow>
             if API_BATCH_SIZE cfg = 0 then (False, [Create_job])
             else
               (let events = Create_job #
                      batch_events (batch_results cfg svc (processed_operations u)) @ [Run_job]
                in case run_job svc of
                     Some e \<Rightarrow> (False, events)
                   | None \<Rightarrow> (True, events))))"

section \<open>The upload of the earlier script\<close>

text \<open>
  \<open>_upload_batch_with_retry\<close>, over the values of \<open>retry\<close> still to run. A
  \<open>GoogleAdsException\<close> goes on to the next attempt when its failure text contains
  \<open>CONCURRENT_MODIFICATION\<close> and retries are left; any other exception goes on whenever
  retries are left.
\<close>

fun retry_loop :: "(nat \<Rightarrow> error option) \<Rightarrow> int \<Rightarrow> nat list \<Rightarrow> bool \<times> nat list" where
  "retry_loop add max_retries [] = (False, [])"
| "retry_loop add max_retries (retry # rest) =
     (case add retry of
        None \<Rightarrow> (True, [retry])
      | Some (GoogleAdsException error_msg s) \<Rightarrow>
          if contains ''CONCURRENT_MODIFICATION'' error_msg \<and> int retry < max_retries
          then (let (success, made) = retry_loop add max_retries rest in (success, retry # made))
          else (False, [retry])
      | Some (OtherException s) \<Rightarrow>
          if int retry < max_retries
          then (let (success, made) = retry_loop add max_retries rest in (success, retry # made))
          else (False, [retry]))"

definition upload_batch_with_retry :: "config \<Rightarrow> (nat \<Rightarrow> error option) \<Rightarrow> bool \<times> nat list" where
  "upload_batch_with_retry cfg add =
     retry_loop add (API_RETRY_COUNT cfg) [0..<nat (API_RETRY_COUNT cfg + 1)]"

definition operation_batches :: "'a list \<Rightarrow> int \<Rightarrow> 'a list list" where
  \<comment> \<open>\<open>[ops[i:i + api_batch_size] for i in range(0, len(ops), api_batch_size)]\<close>; a negative
      step gives the empty range, and a zero step is refused by the caller below\<close>
  "operation_batches ops api_batch_size =
     map (\<lambda>i. py_slice ops i (i + api_batch_size)) (py_range 0 (int (length ops)) api_batch_size)"

definition batch_results_attached ::
  "config \<Rightarrow> service \<Rightarrow> 'a list \<Rightarrow> (bool \<times> nat list) list" where
  "batch_results_attached cfg svc ops =
     map (\<lambda>i. upload_batch_with_retry cfg (add_operations svc i))
       [0..<length (operation_batches ops (API_BATCH_SIZE cfg))]"

definition batch_success_count :: "(bool \<times> nat list) list \<Rightarrow> nat" where
  "batch_success_count results = length (filter fst results)"

text \<open>
  \<open>upload_to_google_ads\<close> of the earlier script. The library imports and the two
  \<open>get_service\<close> calls stand before its \<open>try\<close> and are taken to succeed. A batch size of 0
  makes \<open>range\<close> raise \<open>ValueError\<close>, which the final \<open>except\<close> turns into \<open>False\<close>.
\<close>

definition upload_to_google_ads_attached ::
  "config \<Rightarrow> service \<Rightarrow> 'a uploader \<Rightarrow> bool \<times> event list" where
  "upload_to_google_ads_attached cfg svc u =
     (if processed_operations u = [] then (True, [])
      else if \<not> googleads_client u then (False, [])
      else
        (case create_job svc of
           Inl e \<Rightarrow> (False, [Create_job])
         | Inr resource_name \<Rightarrow>
             if API_BATCH_SIZE cfg = 0 then (False, [Create_job])
             else
               (let results = batch_results_attached cfg svc (processed_operations u);
                    events = Create_job # batch_events results @ [Run_job]
                in case run_job svc of
                     Some e \<Rightarrow> (False, events)
                   | None \<Rightarrow> (batch_success_count results > 0, events))))"

section \<open>The job monitor of the main script\<close>

text \<open>
  \<open>wait_for_job_completion\<close> polls the job until a final status or until the time is up.
  Time is counted in whole seconds: \<open>elapsed\<close> is \<open>time.time() - start_time\<close> at the loop
  test, the sleep adds 10 and \<open>latency k\<close> is the time the \<open>k\<close>-th poll takes. \<open>poll k\<close> is the
  status number the \<open>k\<close>-th poll returns, or the exception it raises. The result is the value
  returned and the log lines written at warning level or above.
\<close>

datatype log_line =
    Job_failed_with_status int
  | Job_monitoring_timed_out int
  | Error_monitoring_job
  | Client_not_initialized

function wait_loop ::
  "(nat \<Rightarrow> error + int) \<Rightarrow> (nat \<Rightarrow> nat) \<Rightarrow> int \<Rightarrow> nat \<Rightarrow> int \<Rightarrow> bool \<times> log_line list" where
  "wait_loop poll latency timeout_seconds k elapsed =
     (if elapsed < timeout_seconds then
        (case poll k of
           Inl e \<Rightarrow> (False, [Error_monitoring_job])
         | Inr status \<Rightarrow>
             if status = 5 then (True, [])
             else if status = 4 \<or> status = 6 then (False, [Job_failed_with_status status])
             else wait_loop poll latency timeout_seconds (k + 1)
                    (elapsed + int (latency k) + 10))
      else (False, [Job_monitoring_timed_out timeout_seconds]))"
  by pat_completeness auto
termination
  by (relation "measure (\<lambda>(poll, latency, timeout_seconds, k, elapsed).
        nat (timeout_seconds - elapsed))") auto

declare wait_loop.simps [simp del]

definition wait_for_job_completion ::
  "bool \<Rightarrow> bool \<Rightarrow> (nat \<Rightarrow> error + int) \<Rightarrow> (nat \<Rightarrow> nat) \<Rightarrow> int \<Rightarrow> bool \<times> log_line list" where
  \<comment> \<open>the first two arguments: the client is initialised; \<open>get_service\<close> returns\<close>
  "wait_for_job_completion client service_ok poll latency timeout_seconds =
     (if \<not> client then (False, [Client_not_initialized])
      else if \<not> service_ok then (False, [Error_monitoring_job])
      else wait_loop poll latency timeout_seconds 0 0)"

definition pending :: "error + int \<Rightarrow> bool" where
  \<comment> \<open>a poll that returns a status other than 5 (success), 4 (failed) and 6 (cancelled)\<close>
  "pending p = (case p of Inl e \<Rightarrow> False
                | Inr status \<Rightarrow> status \<noteq> 5 \<and> status \<noteq> 4 \<and> status \<noteq> 6)"

fun elapsed_after :: "(nat \<Rightarrow> nat) \<Rightarrow> nat \<Rightarrow> nat \<Rightarrow> int" where
  \<comment> \<open>the seconds taken by \<open>m\<close> turns of the loop that start with poll \<open>k\<close>\<close>
  "elapsed_after latency k 0 = 0"
| "elapsed_after latency k (Suc m) = int (latency k) + 10 + elapsed_after latency (Suc k) m"

definition default_timeout_seconds :: int where
  "default_timeout_seconds = 300"

section \<open>Field validity in the words of the specification\<close>

text \<open>
  A name is trimmed and lowercased, and accepted when it has at least \<open>k\<close> characters and none
  of the problematic ones; a postal code is accepted when at least five digits remain after
  removing every other character.
\<close>

definition name_accepted :: "nat \<Rightarrow> string option \<Rightarrow> bool" where
  "name_accepted k name_raw =
     (truthy name_raw \<and> k \<le> length (strip (lower (the name_raw)))
      \<and> (\<forall>c \<in> set problem_chars. c \<notin> set (strip (lower (the name_raw)))))"

definition name_digest :: "string option \<Rightarrow> digest option" where
  "name_digest name_raw = Some (SHA256 (strip (lower (the name_raw))))"

definition zip_accepted :: "string option \<Rightarrow> bool" where
  "zip_accepted zip_code_raw = (truthy zip_code_raw \<and> 5 \<le> length (digits_of (the zip_code_raw)))"

section \<open>Sample inputs\<close>

text \<open>
  A stand-in for the \<open>phonenumbers\<close> library on North American numbers, and two rows, used
  to run the definitions on concrete inputs. The theorems hold for every library.
\<close>

definition sample_phonenumbers :: "string phonenumbers" where
  "sample_phonenumbers =
     \<lparr>parse = (\<lambda>s region.
          let d = digits_of s in
          if take 1 s = ''+'' then (if take 1 d = ''1'' then Some (drop 1 d) else None)
          else if region = Some ''US'' \<and> d \<noteq> [] then
            (if length d = 11 \<and> take 1 d = ''1'' then Some (drop 1 d) else Some d)
          else None),
      is_valid_number = (\<lambda>n. length n = 10 \<and> hd n \<notin> set ''01'' \<and> n ! 3 \<notin> set ''01''),
      format_e164 = (\<lambda>n. ''+1'' @ n)\<rparr>"

definition sample_row :: raw_row where
  "sample_row = \<lparr>row_cust_no = Some ''C1'', row_first_name = Some ''Jane'',
     row_last_name = Some ''Doe'', row_contact_guid = Some ''guid'',
     row_email = Some ''JANE.DOE@Example.com'', row_phone = Some ''(206) 456-7890'',
     row_zip_code = Some ''98101-1'', row_state_code = Some ''WA'', row_brand = Some None\<rparr>"

definition short_row :: raw_row where
  "short_row = \<lparr>row_cust_no = Some ''C2'', row_first_name = Some ''J'',
     row_last_name = Some ''Doe'', row_contact_guid = None,
     row_email = Some '''', row_phone = Some ''123'',
     row_zip_code = Some ''98101'', row_state_code = Some ''WA'', row_brand = None\<rparr>"

definition blank_customer :: "string \<rightharpoonup> string" where
  \<comment> \<open>a CSV row whose email and phone columns are empty\<close>
  "blank_customer = map_of [(''email'', []), (''phone'', [])]"

definition zip_only_customer :: "string \<rightharpoonup> string" where
  \<comment> \<open>a CSV row with an email and a zip code, and no name or country\<close>
  "zip_only_customer = map_of [(''email'', ''a@b.co''), (''zip'', ''98101'')]"

definition partial_row :: raw_row where
  \<comment> \<open>a row with a valid email and zip code whose last name is missing\<close>
  "partial_row = \<lparr>row_cust_no = Some ''C3'', row_first_name = Some ''Jane'',
     row_last_name = None, row_contact_guid = None,
     row_email = Some '' Jane@Example.com '', row_phone = None,
     row_zip_code = Some ''98101'', row_state_code = Some ''WA'', row_brand = None\<rparr>"

definition no_state_row :: raw_row where
  \<comment> \<open>the first sample row without its state code\<close>
  "no_state_row = sample_row\<lparr>row_state_code := None\<rparr>"

definition phone_customer :: "string \<rightharpoonup> string" where
  \<comment> \<open>a CSV row with a phone column only\<close>
  "phone_customer = map_of [(''phone'', ''(206) 456-7890'')]"

definition default_config :: config where
  \<comment> \<open>the defaults of \<open>load_config\<close>\<close>
  "default_config = \<lparr>API_BATCH_SIZE = 2500, API_RETRY_COUNT = 3\<rparr>"

definition refused :: "nat \<Rightarrow> nat \<Rightarrow> error option" where
  \<comment> \<open>every submission raises an exception that is not a concurrent modification\<close>
  "refused batch_num attempt = Some (OtherException ''connection reset'')"

definition refusing_service :: service where
  \<comment> \<open>the job is created and run, and every batch submission is refused\<close>
  "refusing_service = \<lparr>get_service_ok = True, create_job = Inr ''jobs/1'',
     add_operations = refused, run_job = None\<rparr>"

definition conflict_twice :: "nat \<Rightarrow> nat \<Rightarrow> error option" where
  \<comment> \<open>the first two submissions of each batch meet a concurrent modification\<close>
  "conflict_twice batch_num attempt =
     (if attempt < 2
      then Some (GoogleAdsException ''CONCURRENT_MODIFICATION''
                   ''ConcurrentModificationException'')
      else None)"

definition conflicting_service :: service where
  "conflicting_service = \<lparr>get_service_ok = True, create_job = Inr ''jobs/1'',
     add_operations = conflict_twice, run_job = None\<rparr>"

definition loaded_uploader :: "nat uploader" where
  \<comment> \<open>an uploader with an initialised client and three prepared operations\<close>
  "loaded_uploader = (init_uploader None True)\<lparr>processed_operations := [1, 2, 3]\<rparr>"

definition always_running :: "nat \<Rightarrow> error + int" where
  \<comment> \<open>a job that stays in status 2 (running)\<close>
  "always_running k = Inr 2"

definition fails_at_once :: "nat \<Rightarrow> error + int" where
  \<comment> \<open>a job found in status 4 (failed) at the first poll\<close>
  "fails_at_once k = Inr 4"

definition no_latency :: "nat \<Rightarrow> nat" where
  "no_latency k = 0"

definition working_client :: "nat \<Rightarrow> client_outcome" where
  \<comment> \<open>the client calls return for every row\<close>
  "working_client n = Returns"

definition failing_client :: "nat \<Rightarrow> client_outcome" where
  \<comment> \<open>for every row, a client call raises while the operation is built\<close>
  "failing_client n = Raises_building_operation"

definition full_customer :: "string \<rightharpoonup> string" where
  \<comment> \<open>a CSV row with every column filled\<close>
  "full_customer = map_of [(''email'', ''Jane@Example.com''), (''phone'', ''(206) 456-7890''),
     (''first_name'', ''Jane''), (''last_name'', ''Doe''), (''country'', ''us''),
     (''zip'', ''98101'')]"

definition fails_at_third :: "nat \<Rightarrow> error + int" where
  \<comment> \<open>a job that is running at the first two polls and failed at the third\<close>
  "fails_at_third k = (if k < 2 then Inr 2 else Inr 4)"

definition succeeds_at_third :: "nat \<Rightarrow> error + int" where
  \<comment> \<open>a job that is pending, then running, then done\<close>
  "succeeds_at_third k = (if k = 0 then Inr 1 else if k = 1 then Inr 2 else Inr 5)"

definition raises_at_second :: "nat \<Rightarrow> error + int" where
  \<comment> \<open>the second poll raises\<close>
  "raises_at_second k = (if k = 0 then Inr 2 else Inl (OtherException ''unavailable''))"

section \<open>Row processing: what a row appends\<close>

lemma process_customer_row_step:
  "(rows_with_any_id_count (process_customer_row lib u row) = rows_with_any_id_count u + 1
      \<and> (\<exists>op. processed_operations (process_customer_row lib u row)
                 = processed_operations u @ [op]))
   \<or> (rows_with_any_id_count (process_customer_row lib u row) = rows_with_any_id_count u
      \<and> processed_operations (process_customer_row lib u row) = processed_operations u)"
  by (simp add: process_customer_row_def Let_def split: prod.split)

lemma process_customer_row_attached_step:
  "(rows_with_any_id_count (process_customer_row_attached lib outcome u row)
        = rows_with_any_id_count u + 1
      \<and> (\<exists>op. processed_operations (process_customer_row_attached lib outcome u row)
                 = processed_operations u @ [op]))
   \<or> (rows_with_any_id_count (process_customer_row_attached lib outcome u row)
        = rows_with_any_id_count u
      \<and> processed_operations (process_customer_row_attached lib outcome u row)
        = processed_operations u)
   \<or> (outcome = Raises_building_operation
      \<and> rows_with_any_id_count (process_customer_row_attached lib outcome u row)
        = rows_with_any_id_count u + 1
      \<and> processed_operations (process_customer_row_attached lib outcome u row)
        = processed_operations u)"
  by (simp add: process_customer_row_attached_def create_google_ads_operation_def Let_def
      split: prod.split)

lemma process_rows_count:
  "rows_with_any_id_count u = length (processed_operations u) \<Longrightarrow>
   rows_with_any_id_count (process_rows lib u rows)
     = length (processed_operations (process_rows lib u rows))"
proof (induction rows arbitrary: u)
  case Nil
  then show ?case by (simp add: process_rows_def)
next
  case (Cons row rows)
  let ?v = "u\<lparr>total_rows_processed := total_rows_processed u + 1\<rparr>"
  have "rows_with_any_id_count (process_customer_row lib ?v row)
        = length (processed_operations (process_customer_row lib ?v row))"
    using process_customer_row_step [of lib ?v row] Cons.prems by auto
  from Cons.IH [OF this] show ?case by (simp add: process_rows_def)
qed

lemma process_rows_attached_count:
  "\<forall>n. outcomes n \<noteq> Raises_building_operation \<Longrightarrow>
   rows_with_any_id_count u = length (processed_operations u) \<Longrightarrow>
   rows_with_any_id_count (process_rows_attached lib outcomes u rows)
     = length (processed_operations (process_rows_attached lib outcomes u rows))"
proof (induction rows arbitrary: u)
  case Nil
  then show ?case by (simp add: process_rows_attached_def)
next
  case (Cons row rows)
  let ?v = "u\<lparr>total_rows_processed := total_rows_processed u + 1\<rparr>"
  let ?o = "outcomes (total_rows_processed u + 1)"
  have "?o \<noteq> Raises_building_operation" using Cons.prems(1) by simp
  then have "rows_with_any_id_count (process_customer_row_attached lib ?o ?v row)
        = length (processed_operations (process_customer_row_attached lib ?o ?v row))"
    using process_customer_row_attached_step [of lib ?o ?v row] Cons.prems(2) by auto
  from Cons.IH [OF Cons.prems(1) this] show ?case by (simp add: process_rows_attached_def)
qed

lemma process_rows_attached_count_le:
  "length (processed_operations u) \<le> rows_with_any_id_count u \<Longrightarrow>
   length (processed_operations (process_rows_attached lib outcomes u rows))
     \<le> rows_with_any_id_count (process_rows_attached lib outcomes u rows)"
proof (induction rows arbitrary: u)
  case Nil
  then show ?case by (simp add: process_rows_attached_def)
next
  case (Cons row rows)
  let ?v = "u\<lparr>total_rows_processed := total_rows_processed u + 1\<rparr>"
  let ?o = "outcomes (total_rows_processed u + 1)"
  have "length (processed_operations (process_customer_row_attached lib ?o ?v row))
        \<le> rows_with_any_id_count (process_customer_row_attached lib ?o ?v row)"
    using process_customer_row_attached_step [of lib ?o ?v row] Cons.prems by auto
  from Cons.IH [OF this] show ?case by (simp add: process_rows_attached_def)
qed

lemma process_customer_row_operations:
  "processed_operations (process_customer_row lib u row) =
     processed_operations u @
       (if skipped_by_brand u row \<or> row_user_identifiers lib row = [] then []
        else [\<lparr>user_identifiers = row_user_identifiers lib row,
               op_cust_no = clean_field (row_cust_no row),
               op_contact_guid = py_str (row_contact_guid row),
               op_brand = (if truthy (brand_raw_of row) then the (brand_raw_of row)
                           else ''unspecified'')\<rparr>])"
  by (simp add: process_customer_row_def row_user_identifiers_def Let_def split: prod.split)

lemma process_customer_row_attached_operations:
  "processed_operations (process_customer_row_attached lib outcome u row) =
     processed_operations u @
       (if \<not> googleads_client u \<or> row_user_identifiers_attached lib row = []
           \<or> outcome \<noteq> Returns
        then [] else [row_user_identifiers_attached lib row])"
  by (cases outcome)
     (simp_all add: process_customer_row_attached_def row_user_identifiers_attached_def
        create_google_ads_operation_def Let_def split: prod.split)

lemma process_rows_nonempty:
  "\<forall>op \<in> set (processed_operations u). user_identifiers op \<noteq> [] \<Longrightarrow>
   \<forall>op \<in> set (processed_operations (process_rows lib u rows)). user_identifiers op \<noteq> []"
proof (induction rows arbitrary: u)
  case Nil
  then show ?case by (simp add: process_rows_def)
next
  case (Cons row rows)
  let ?v = "u\<lparr>total_rows_processed := total_rows_processed u + 1\<rparr>"
  have "\<forall>op \<in> set (processed_operations (process_customer_row lib ?v row)).
          user_identifiers op \<noteq> []"
    using Cons.prems by (simp add: process_customer_row_operations)
  from Cons.IH [OF this] show ?case by (simp add: process_rows_def)
qed

lemma process_rows_attached_nonempty:
  "\<forall>ids \<in> set (processed_operations u). ids \<noteq> [] \<Longrightarrow>
   \<forall>ids \<in> set (processed_operations (process_rows_attached lib outcomes u rows)). ids \<noteq> []"
proof (induction rows arbitrary: u)
  case Nil
  then show ?case by (simp add: process_rows_attached_def)
next
  case (Cons row rows)
  let ?v = "u\<lparr>total_rows_processed := total_rows_processed u + 1\<rparr>"
  let ?o = "outcomes (total_rows_processed u + 1)"
  have "\<forall>ids \<in> set (processed_operations (process_customer_row_attached lib ?o ?v row)).
          ids \<noteq> []"
    using Cons.prems by (simp add: process_customer_row_attached_operations)
  from Cons.IH [OF this] show ?case by (simp add: process_rows_attached_def)
qed

lemma length_digits_of_le: "length (digits_of z) \<le> length z"
  by (simp add: digits_of_def)

lemma row_postal_eq:
  "row_postal z = (if zip_accepted z then (Some ''US'', Some (take 5 (digits_of (the z))))
                   else if truthy z \<and> 5 \<le> length (the z) then (Some ''US'', None)
                   else (None, None))"
proof (cases z)
  case None
  then show ?thesis by (simp add: row_postal_def zip_accepted_def truthy_def)
next
  case (Some s)
  have "length (digits_of s) \<le> length s" by (rule length_digits_of_le)
  then show ?thesis using Some
    by (simp add: row_postal_def zip_accepted_def truthy_def Let_def min_def)
qed

lemma row_names_eq:
  "row_names f l =
     (if name_accepted 2 f \<and> name_accepted 2 l then (name_digest f, name_digest l, True, False)
      else if truthy f \<and> truthy l then (None, None, False, True)
      else (None, None, False, False))"
  unfolding row_names_def name_accepted_def name_digest_def Let_def
  by (cases "truthy f \<and> truthy l") auto

lemma zip_accepted_digits: "zip_accepted z \<Longrightarrow> take 5 (digits_of (the z)) \<noteq> []"
  by (auto simp: zip_accepted_def)

lemma row_user_identifiers_eq:
  "row_user_identifiers lib row =
     (case row_hashed_email (clean_field (row_email row)) of
        None \<Rightarrow> [] | Some h \<Rightarrow> [Hashed_email h]) @
     (case row_hashed_phone lib (clean_field (row_phone row)) of
        None \<Rightarrow> [] | Some h \<Rightarrow> [Hashed_phone_number h]) @
     (if name_accepted 2 (clean_field (row_first_name row))
         \<and> name_accepted 2 (clean_field (row_last_name row))
         \<and> zip_accepted (clean_field (row_zip_code row))
      then [Address_info (name_digest (clean_field (row_first_name row)))
              (name_digest (clean_field (row_last_name row))) (Some ''US'')
              (Some (take 5 (digits_of (the (clean_field (row_zip_code row))))))]
      else [])"
  using zip_accepted_digits [of "clean_field (row_zip_code row)"]
  by (simp add: row_user_identifiers_def row_identifiers_def row_postal_eq row_names_eq
        name_digest_def truthy_def)

lemma process_name_eq:
  "process_name s = (if name_accepted 1 (Some s) then (name_digest (Some s), True) else (None, False))"
proof -
  have "s \<noteq> []" if "1 \<le> length (strip (lower s))"
    using that by (auto simp: strip_def lower_def)
  then show ?thesis
    unfolding process_name_def name_accepted_def name_digest_def Let_def truthy_def
    by (auto simp: Suc_le_eq)
qed

lemma names_attached_eq:
  "names_attached f l =
     (if name_accepted 1 f \<and> name_accepted 1 l then (name_digest f, name_digest l, False)
      else if truthy f \<and> truthy l
      then (if name_accepted 1 f then name_digest f else None,
            if name_accepted 1 l then name_digest l else None, True)
      else (None, None, True))"
proof (cases "truthy f \<and> truthy l")
  case False
  then show ?thesis by (auto simp: names_attached_def name_accepted_def)
next
  case True
  then obtain a b where "f = Some a" "l = Some b"
    by (auto simp: truthy_def split: option.splits)
  then show ?thesis using True
    by (simp add: names_attached_def process_name_eq)
qed

lemma country_attached_eq:
  "country_attached st =
     (if truthy st \<and> length (upper (strip (the st))) = 2 then Some ''US'' else None)"
  by (simp add: country_attached_def Let_def)

lemma postal_attached_eq:
  "postal_attached z = (if zip_accepted z then Some (take 5 (digits_of (the z))) else None)"
  by (simp add: postal_attached_def zip_accepted_def Let_def)

lemma row_user_identifiers_attached_eq:
  "row_user_identifiers_attached lib row =
     (case process_email (clean_field (row_email row)) of
        None \<Rightarrow> [] | Some h \<Rightarrow> [Hashed_email h]) @
     (case process_phone lib (clean_field (row_phone row)) of
        None \<Rightarrow> [] | Some h \<Rightarrow> [Hashed_phone_number h]) @
     (if name_accepted 1 (clean_field (row_first_name row))
         \<and> name_accepted 1 (clean_field (row_last_name row))
         \<and> truthy (clean_field (row_state_code row))
         \<and> length (upper (strip (the (clean_field (row_state_code row))))) = 2
         \<and> zip_accepted (clean_field (row_zip_code row))
      then [Address_info (name_digest (clean_field (row_first_name row)))
              (name_digest (clean_field (row_last_name row))) (Some ''US'')
              (Some (take 5 (digits_of (the (clean_field (row_zip_code row))))))]
      else [])"
  using zip_accepted_digits [of "clean_field (row_zip_code row)"]
  by (simp add: row_user_identifiers_attached_def names_attached_eq country_attached_eq
        postal_attached_eq name_digest_def truthy_def)

lemma customer_operation_address:
  "Address_info a b c d \<in> set (customer_operation customer) \<longleftrightarrow>
     (truthy (customer ''first_name'') \<or> truthy (customer ''last_name'')
      \<or> truthy (customer ''country'') \<or> truthy (customer ''zip''))
     \<and> a = (if truthy (customer ''first_name'')
            then Some (SHA256 (lower (strip (the (customer ''first_name''))))) else None)
     \<and> b = (if truthy (customer ''last_name'')
            then Some (SHA256 (lower (strip (the (customer ''last_name''))))) else None)
     \<and> c = (if truthy (customer ''country'') then Some (upper (the (customer ''country'')))
            else None)
     \<and> d = (if truthy (customer ''zip'') then customer ''zip'' else None)"
  by (auto simp: customer_operation_def hash_data_def)

lemma customer_operation_email:
  "Hashed_email h \<in> set (customer_operation customer) \<longleftrightarrow>
     truthy (customer ''email'') \<and> h = SHA256 (lower (strip (the (customer ''email''))))"
  by (auto simp: customer_operation_def hash_data_def)

lemma customer_operation_phone:
  "Hashed_phone_number h \<in> set (customer_operation customer) \<longleftrightarrow>
     truthy (customer ''phone'') \<and> h = SHA256 (lower (strip (the (customer ''phone''))))"
  by (auto simp: customer_operation_def hash_data_def)

section \<open>Claims about row processing\<close>

text \<open>
  C10, as stated: after any sequence of rows the counter of rows with at least one identifier
  equals the number of prepared operations, and a row changes both or neither. In the earlier
  script the counter is incremented before the client library is called to build the
  operation; when such a call raises, the row-level \<open>except\<close> goes on to the next row with
  the counter incremented and nothing appended.
\<close>

theorem counter_without_operation_counterexample:
  "rows_with_any_id_count
     (process_rows_attached sample_phonenumbers failing_client (init_uploader None True)
        [sample_row]) = 1
   \<and> processed_operations
       (process_rows_attached sample_phonenumbers failing_client (init_uploader None True)
          [sample_row]) = []"
  by code_simp

text \<open>
  C10, as amended. In the main script, after processing any sequence of rows from the initial
  state the counter equals the number of prepared operations, and a row either adds one to
  the counter and appends exactly one operation or leaves both as they were. In the earlier
  script the same holds as long as no call of the client library raises while an operation is
  built; a row for which such a call raises adds one to the counter and appends nothing, so
  that in general the number of prepared operations is at most the counter.
\<close>

theorem rows_with_any_id_count_is_length:
  "rows_with_any_id_count (process_rows lib (init_uploader b c) rows)
     = length (processed_operations (process_rows lib (init_uploader b c) rows))
   \<and> ((\<forall>n. outcomes n \<noteq> Raises_building_operation) \<longrightarrow>
        rows_with_any_id_count (process_rows_attached lib outcomes (init_uploader b c) rows)
          = length (processed_operations
                      (process_rows_attached lib outcomes (init_uploader b c) rows)))
   \<and> length (processed_operations (process_rows_attached lib outcomes (init_uploader b c) rows))
        \<le> rows_with_any_id_count (process_rows_attached lib outcomes (init_uploader b c) rows)
   \<and> ((rows_with_any_id_count (process_customer_row lib u row) = rows_with_any_id_count u + 1
        \<and> (\<exists>op. processed_operations (process_customer_row lib u row)
                   = processed_operations u @ [op]))
      \<or> (rows_with_any_id_count (process_customer_row lib u row) = rows_with_any_id_count u
        \<and> processed_operations (process_customer_row lib u row) = processed_operations u))
   \<and> ((rows_with_any_id_count (process_customer_row_attached lib outcome v row)
          = rows_with_any_id_count v + 1
        \<and> (\<exists>op. processed_operations (process_customer_row_attached lib outcome v row)
                   = processed_operations v @ [op]))
      \<or> (rows_with_any_id_count (process_customer_row_attached lib outcome v row)
          = rows_with_any_id_count v
        \<and> processed_operations (process_customer_row_attached lib outcome v row)
          = processed_operations v)
      \<or> (outcome = Raises_building_operation
        \<and> rows_with_any_id_count (process_customer_row_attached lib outcome v row)
          = rows_with_any_id_count v + 1
        \<and> processed_operations (process_customer_row_attached lib outcome v row)
          = processed_operations v))"
proof -
  have "rows_with_any_id_count (init_uploader b c :: operation uploader)
          = length (processed_operations (init_uploader b c :: operation uploader))"
    by (simp add: init_uploader_def)
  then have main: "rows_with_any_id_count (process_rows lib (init_uploader b c) rows)
     = length (processed_operations (process_rows lib (init_uploader b c) rows))"
    by (rule process_rows_count)
  have i: "rows_with_any_id_count (init_uploader b c :: user_identifier list uploader)
          = length (processed_operations (init_uploader b c :: user_identifier list uploader))"
    by (simp add: init_uploader_def)
  have att: "(\<forall>n. outcomes n \<noteq> Raises_building_operation) \<longrightarrow>
        rows_with_any_id_count (process_rows_attached lib outcomes (init_uploader b c) rows)
          = length (processed_operations
                      (process_rows_attached lib outcomes (init_uploader b c) rows))"
    using process_rows_attached_count [OF _ i] by blast
  have "length (processed_operations (init_uploader b c :: user_identifier list uploader))
          \<le> rows_with_any_id_count (init_uploader b c :: user_identifier list uploader)"
    by (simp add: init_uploader_def)
  then have le: "length (processed_operations
                     (process_rows_attached lib outcomes (init_uploader b c) rows))
        \<le> rows_with_any_id_count (process_rows_attached lib outcomes (init_uploader b c) rows)"
    by (rule process_rows_attached_count_le)
  show ?thesis
    using main att le process_customer_row_step [of lib u row]
      process_customer_row_attached_step [of lib outcome v row]
    by blast
qed

theorem rows_with_any_id_count_is_length_witness:
  "rows_with_any_id_count
     (process_rows sample_phonenumbers (init_uploader None True) [sample_row, short_row]) = 1
   \<and> length (processed_operations
        (process_rows sample_phonenumbers (init_uploader None True) [sample_row, short_row])) = 1
   \<and> rows_with_any_id_count
       (process_rows_attached sample_phonenumbers working_client (init_uploader None True)
          [sample_row, short_row]) = 2
   \<and> working_client 1 = Returns"
proof -
  have "length (processed_operations
          (process_rows sample_phonenumbers (init_uploader None True) [sample_row, short_row]))
        = 1"
    by code_simp
  moreover have "length (processed_operations
          (process_rows_attached sample_phonenumbers working_client (init_uploader None True)
             [sample_row, short_row])) = 2"
    by code_simp
  moreover have "\<forall>n. working_client n \<noteq> Raises_building_operation"
    by (simp add: working_client_def)
  ultimately show ?thesis
    using rows_with_any_id_count_is_length
      [where lib = sample_phonenumbers and b = None and c = True
         and rows = "[sample_row, short_row]" and outcomes = working_client]
    by (simp add: working_client_def)
qed

text \<open>
  C1, as stated: every operation handed to the upload has at least one identifier. The CSV
  uploader appends an operation for every customer: for a row with empty email and phone
  columns the operation has no identifier.
\<close>

theorem empty_operation_counterexample:
  "create_user_data_operations [blank_customer] = [[]]"
  by (simp add: create_user_data_operations_def customer_operation_def blank_customer_def
      truthy_def)

text \<open>
  C1, as amended: in the main script and in the earlier one, every prepared operation has at
  least one identifier, whatever rows were processed and whatever the client library did; the
  CSV uploader prepares one operation for each customer.
\<close>

theorem prepared_operations_have_identifiers:
  "(\<forall>op \<in> set (processed_operations (process_rows lib (init_uploader b c) rows)).
      user_identifiers op \<noteq> [])
   \<and> (\<forall>ids \<in> set (processed_operations
                        (process_rows_attached lib outcomes (init_uploader b c) rows)).
        ids \<noteq> [])
   \<and> length (create_user_data_operations customers) = length customers"
proof -
  have "\<forall>op \<in> set (processed_operations (init_uploader b c :: operation uploader)).
          user_identifiers op \<noteq> []"
    by (simp add: init_uploader_def)
  then have main: "\<forall>op \<in> set (processed_operations
                       (process_rows lib (init_uploader b c) rows)). user_identifiers op \<noteq> []"
    by (rule process_rows_nonempty)
  have "\<forall>ids \<in> set (processed_operations (init_uploader b c :: user_identifier list uploader)).
          ids \<noteq> []"
    by (simp add: init_uploader_def)
  then have att: "\<forall>ids \<in> set (processed_operations
                       (process_rows_attached lib outcomes (init_uploader b c) rows)).
                    ids \<noteq> []"
    by (rule process_rows_attached_nonempty)
  show ?thesis using main att by (simp add: create_user_data_operations_def)
qed

theorem prepared_operations_have_identifiers_witness:
  "map user_identifiers (processed_operations
     (process_rows sample_phonenumbers (init_uploader None True) [sample_row, short_row]))
   = [[Hashed_email (SHA256 ''jane.doe@example.com''),
       Hashed_phone_number (SHA256 ''+12064567890''),
       Address_info (Some (SHA256 ''jane'')) (Some (SHA256 ''doe'')) (Some ''US'')
         (Some ''98101'')]]
   \<and> list_all (\<lambda>op. user_identifiers op \<noteq> [])
       (processed_operations
          (process_rows sample_phonenumbers (init_uploader None True) [sample_row, short_row]))"
proof -
  have "map user_identifiers (processed_operations
     (process_rows sample_phonenumbers (init_uploader None True) [sample_row, short_row]))
   = [[Hashed_email (SHA256 ''jane.doe@example.com''),
       Hashed_phone_number (SHA256 ''+12064567890''),
       Address_info (Some (SHA256 ''jane'')) (Some (SHA256 ''doe'')) (Some ''US'')
         (Some ''98101'')]]"
    by code_simp
  then show ?thesis
    using prepared_operations_have_identifiers
      [where lib = sample_phonenumbers and b = None and c = True
         and rows = "[sample_row, short_row]"]
    by (simp only: list_all_iff) blast
qed

text \<open>
  C2, as stated: an address identifier is emitted only when all four components are valid.
  The CSV uploader emits an address identifier as soon as one of the four columns is filled:
  for a row with a zip code and no name or country, the identifier holds the zip code alone.
\<close>

theorem partial_address_counterexample:
  "create_user_data_operations [zip_only_customer]
     = [[Hashed_email (SHA256 ''a@b.co''), Address_info None None None (Some ''98101'')]]"
  by code_simp

text \<open>
  C2, as amended, for ASCII text. In the main script and in the earlier one, the identifiers
  of a row are the email identifier, the phone identifier and the address identifier, each
  present or absent on its own. The address identifier is present exactly when both names are
  accepted (at least two characters in the main script, one in the earlier one, and no
  problematic character), the postal code is accepted and, in the earlier script, the
  trimmed, uppercased state code has two characters; it then carries all four components.
  The operation a row appends holds exactly these identifiers; the earlier script appends it
  when the client is initialised and the client library calls return. In the CSV uploader
  the address identifier is present exactly when one of the columns first name, last name,
  country and zip is filled, and it carries the filled ones only; email and phone
  identifiers are present exactly when their column is filled.
\<close>

theorem address_identifier_all_or_nothing:
  assumes "ascii_row row" and "ascii_customer customer"
  shows "row_user_identifiers lib row =
     (case row_hashed_email (clean_field (row_email row)) of
        None \<Rightarrow> [] | Some h \<Rightarrow> [Hashed_email h]) @
     (case row_hashed_phone lib (clean_field (row_phone row)) of
        None \<Rightarrow> [] | Some h \<Rightarrow> [Hashed_phone_number h]) @
     (if name_accepted 2 (clean_field (row_first_name row))
         \<and> name_accepted 2 (clean_field (row_last_name row))
         \<and> zip_accepted (clean_field (row_zip_code row))
      then [Address_info (name_digest (clean_field (row_first_name row)))
              (name_digest (clean_field (row_last_name row))) (Some ''US'')
              (Some (take 5 (digits_of (the (clean_field (row_zip_code row))))))]
      else [])
   \<and> row_user_identifiers_attached lib row =
     (case process_email (clean_field (row_email row)) of
        None \<Rightarrow> [] | Some h \<Rightarrow> [Hashed_email h]) @
     (case process_phone lib (clean_field (row_phone row)) of
        None \<Rightarrow> [] | Some h \<Rightarrow> [Hashed_phone_number h]) @
     (if name_accepted 1 (clean_field (row_first_name row))
         \<and> name_accepted 1 (clean_field (row_last_name row))
         \<and> truthy (clean_field (row_state_code row))
         \<and> length (upper (strip (the (clean_field (row_state_code row))))) = 2
         \<and> zip_accepted (clean_field (row_zip_code row))
      then [Address_info (name_digest (clean_field (row_first_name row)))
              (name_digest (clean_field (row_last_name row))) (Some ''US'')
              (Some (take 5 (digits_of (the (clean_field (row_zip_code row))))))]
      else [])
   \<and> map user_identifiers (processed_operations (process_customer_row lib u row)) =
       map user_identifiers (processed_operations u) @
         (if skipped_by_brand u row \<or> row_user_identifiers lib row = [] then []
          else [row_user_identifiers lib row])
   \<and> processed_operations (process_customer_row_attached lib outcome v row) =
       processed_operations v @
         (if \<not> googleads_client v \<or> row_user_identifiers_attached lib row = []
             \<or> outcome \<noteq> Returns
          then [] else [row_user_identifiers_attached lib row])
   \<and> (Address_info a b c d \<in> set (customer_operation customer) \<longleftrightarrow>
        (truthy (customer ''first_name'') \<or> truthy (customer ''last_name'')
         \<or> truthy (customer ''country'') \<or> truthy (customer ''zip''))
        \<and> a = (if truthy (customer ''first_name'')
               then Some (SHA256 (lower (strip (the (customer ''first_name''))))) else None)
        \<and> b = (if truthy (customer ''last_name'')
               then Some (SHA256 (lower (strip (the (customer ''last_name''))))) else None)
        \<and> c = (if truthy (customer ''country'')
               then Some (upper (the (customer ''country''))) else None)
        \<and> d = (if truthy (customer ''zip'') then customer ''zip'' else None))
   \<and> (Hashed_email h \<in> set (customer_operation customer) \<longleftrightarrow>
        truthy (customer ''email'')
        \<and> h = SHA256 (lower (strip (the (customer ''email'')))))
   \<and> (Hashed_phone_number h \<in> set (customer_operation customer) \<longleftrightarrow>
        truthy (customer ''phone'')
        \<and> h = SHA256 (lower (strip (the (customer ''phone'')))))"
proof -
  have m: "map user_identifiers (processed_operations (process_customer_row lib u row)) =
       map user_identifiers (processed_operations u) @
         (if skipped_by_brand u row \<or> row_user_identifiers lib row = [] then []
          else [row_user_identifiers lib row])"
    by (simp add: process_customer_row_operations)
  show ?thesis
    using row_user_identifiers_eq [of lib row] row_user_identifiers_attached_eq [of lib row] m
      process_customer_row_attached_operations [of lib outcome v row]
      customer_operation_address [of a b c d customer]
      customer_operation_email [of h customer] customer_operation_phone [of h customer]
    by blast
qed

theorem address_identifier_all_or_nothing_witness:
  "ascii_row partial_row \<and> ascii_customer full_customer
   \<and> row_user_identifiers sample_phonenumbers partial_row
     = [Hashed_email (SHA256 ''jane@example.com'')]
   \<and> row_user_identifiers_attached sample_phonenumbers partial_row
     = [Hashed_email (SHA256 ''jane@example.com'')]
   \<and> \<not> name_accepted 2 (clean_field (row_last_name partial_row))
   \<and> zip_accepted (clean_field (row_zip_code partial_row))
   \<and> Address_info (Some (SHA256 ''jane'')) (Some (SHA256 ''doe'')) (Some ''US'')
       (Some ''98101'') \<in> set (customer_operation full_customer)"
proof -
  have ar: "ascii_row partial_row" by code_simp
  have ac: "ascii_customer full_customer" by code_simp
  note t = address_identifier_all_or_nothing [OF ar ac, where lib = sample_phonenumbers]
  have a: "row_hashed_email (clean_field (row_email partial_row))
             = Some (SHA256 ''jane@example.com'')"
    by code_simp
  have b: "row_hashed_phone sample_phonenumbers (clean_field (row_phone partial_row)) = None"
    by code_simp
  have c: "\<not> name_accepted 2 (clean_field (row_last_name partial_row))"
    by code_simp
  have d: "zip_accepted (clean_field (row_zip_code partial_row))"
    by code_simp
  have e: "process_email (clean_field (row_email partial_row))
             = Some (SHA256 ''jane@example.com'')"
    by code_simp
  have f: "process_phone sample_phonenumbers (clean_field (row_phone partial_row)) = None"
    by code_simp
  have g: "\<not> name_accepted 1 (clean_field (row_last_name partial_row))"
    by code_simp
  have k: "truthy (full_customer ''first_name'')"
    "Some (SHA256 ''jane'') = Some (SHA256 (lower (strip (the (full_customer ''first_name'')))))"
    "truthy (full_customer ''last_name'')"
    "Some (SHA256 ''doe'') = Some (SHA256 (lower (strip (the (full_customer ''last_name'')))))"
    "truthy (full_customer ''country'')"
    "Some ''US'' = Some (upper (the (full_customer ''country'')))"
    "truthy (full_customer ''zip'')"
    "Some ''98101'' = full_customer ''zip''"
    by code_simp+
  have m: "row_user_identifiers sample_phonenumbers partial_row
     = [Hashed_email (SHA256 ''jane@example.com'')]"
    using t [THEN conjunct1] by (simp only: a b c) simp
  have n: "row_user_identifiers_attached sample_phonenumbers partial_row
     = [Hashed_email (SHA256 ''jane@example.com'')]"
    using t [THEN conjunct2, THEN conjunct1] by (simp only: e f g) simp
  have p: "Address_info (Some (SHA256 ''jane'')) (Some (SHA256 ''doe'')) (Some ''US'')
       (Some ''98101'') \<in> set (customer_operation full_customer)"
    using t [THEN conjunct2, THEN conjunct2, THEN conjunct2, THEN conjunct2, THEN conjunct1,
        of "Some (SHA256 ''jane'')" "Some (SHA256 ''doe'')" "Some ''US''" "Some ''98101''"] k
    by simp
  show ?thesis using ar ac m n c d p by blast
qed

section \<open>Claims about the normalisers\<close>

lemma of_char_64: "(of_char c :: nat) = 64 \<Longrightarrow> c = CHR ''@''"
proof -
  assume "(of_char c :: nat) = 64"
  then have "(of_char c :: nat) = of_char (CHR ''@'')" by simp
  then show ?thesis by (simp only: of_char_eq_iff)
qed

lemma of_char_46: "(of_char c :: nat) = 46 \<Longrightarrow> c = CHR ''.''"
proof -
  assume "(of_char c :: nat) = 46"
  then have "(of_char c :: nat) = of_char (CHR ''.'')" by simp
  then show ?thesis by (simp only: of_char_eq_iff)
qed

lemma lower_char_at: "lower_char c = CHR ''@'' \<longleftrightarrow> c = CHR ''@''"
proof
  assume "lower_char c = CHR ''@''"
  then have "(of_char (lower_char c) :: nat) = 64" by simp
  then show "c = CHR ''@''"
    by (cases "65 \<le> (of_char c :: nat) \<and> (of_char c :: nat) \<le> 90")
       (auto simp: lower_char_def Let_def dest: of_char_64)
next
  assume "c = CHR ''@''"
  then show "lower_char c = CHR ''@''" by (simp add: lower_char_def)
qed

lemma lower_char_dot: "lower_char c = CHR ''.'' \<longleftrightarrow> c = CHR ''.''"
proof
  assume "lower_char c = CHR ''.''"
  then have "(of_char (lower_char c) :: nat) = 46" by simp
  then show "c = CHR ''.''"
    by (cases "65 \<le> (of_char c :: nat) \<and> (of_char c :: nat) \<le> 90")
       (auto simp: lower_char_def Let_def dest: of_char_46)
next
  assume "c = CHR ''.''"
  then show "lower_char c = CHR ''.''" by (simp add: lower_char_def)
qed

lemma at_in_lower: "CHR ''@'' \<in> set (lower e) \<longleftrightarrow> CHR ''@'' \<in> set e"
proof -
  have "CHR ''@'' \<in> set (lower e) \<longleftrightarrow> (\<exists>x \<in> set e. lower_char x = CHR ''@'')"
    unfolding lower_def set_map image_iff by metis
  then show ?thesis by (simp add: lower_char_at)
qed

lemma dot_in_lower: "CHR ''.'' \<in> set (lower e) \<longleftrightarrow> CHR ''.'' \<in> set e"
proof -
  have "CHR ''.'' \<in> set (lower e) \<longleftrightarrow> (\<exists>x \<in> set e. lower_char x = CHR ''.'')"
    unfolding lower_def set_map image_iff by metis
  then show ?thesis by (simp add: lower_char_dot)
qed

lemma in_dropWhile: "\<not> P c \<Longrightarrow> c \<in> set (dropWhile P s) \<longleftrightarrow> c \<in> set s"
  by (induction s) auto

lemma in_strip: "\<not> isspace c \<Longrightarrow> c \<in> set (strip s) \<longleftrightarrow> c \<in> set s"
  by (simp add: strip_def in_dropWhile)

lemma not_isspace_at: "\<not> isspace (CHR ''@'')"
  by (simp add: isspace_def)

lemma not_isspace_dot: "\<not> isspace (CHR ''.'')"
  by (simp add: isspace_def)

lemma count_one_in: "count_list n c = 1 \<Longrightarrow> c \<in> set n"
  using count_list_0_iff [of n c] by auto

lemma row_hashed_email_eq:
  "row_hashed_email email_raw =
     (case email_raw of
        None \<Rightarrow> None
      | Some e \<Rightarrow>
          (let normalized_email = strip (lower e) in
           if count_list normalized_email (CHR ''@'') = 1 \<and> 6 \<le> length normalized_email
              \<and> CHR ''.'' \<in> set normalized_email
           then Some (SHA256 normalized_email) else None))"
proof (cases email_raw)
  case None
  then show ?thesis by (simp add: row_hashed_email_def)
next
  case (Some e)
  have at: "CHR ''@'' \<in> set (strip (lower e)) \<longleftrightarrow> CHR ''@'' \<in> set e"
    by (simp add: in_strip not_isspace_at at_in_lower)
  have dot: "CHR ''.'' \<in> set (strip (lower e)) \<longleftrightarrow> CHR ''.'' \<in> set e"
    by (simp add: in_strip not_isspace_dot dot_in_lower)
  have ne: "CHR ''@'' \<in> set e \<Longrightarrow> e \<noteq> []" by auto
  show ?thesis
    using Some at dot ne count_one_in [of "strip (lower e)" "CHR ''@''"]
    by (auto simp: row_hashed_email_def Let_def)
qed

lemma process_email_eq:
  "process_email email_raw =
     (case email_raw of
        None \<Rightarrow> None
      | Some e \<Rightarrow>
          (let email_norm = strip (lower e) in
           if CHR ''@'' \<in> set email_norm \<and> CHR ''.'' \<in> set (after_last (CHR ''@'') email_norm)
           then Some (SHA256 email_norm) else None))"
proof (cases email_raw)
  case None
  then show ?thesis by (simp add: process_email_def truthy_def)
next
  case (Some e)
  have "strip (lower []) = []" by (simp add: strip_def lower_def)
  then show ?thesis using Some
    by (cases "e = []") (simp_all add: process_email_def truthy_def Let_def)
qed

lemma email_count_main:
  "email_processed_count (process_customer_row lib u row) =
     email_processed_count u +
       (if \<not> skipped_by_brand u row \<and> row_hashed_email (clean_field (row_email row)) \<noteq> None
        then 1 else 0)"
  by (simp add: process_customer_row_def Let_def split: prod.split)

lemma email_count_attached:
  "email_processed_count (process_customer_row_attached lib outcome v row) =
     email_processed_count v +
       (if process_email (clean_field (row_email row)) \<noteq> None then 1 else 0)"
  by (simp add: process_customer_row_attached_def create_google_ads_operation_def Let_def
      split: prod.split)

text \<open>
  C6, as stated: a hashed email is produced exactly when the trimmed, lowercased value has
  exactly one at sign, at least 6 characters and a dot in the part after the at sign. The main
  script accepts a value whose only dot stands before the at sign, and the earlier script
  accepts a value of 5 characters.
\<close>

theorem email_rule_counterexample:
  "row_hashed_email (Some ''a.bcd@efg'') = Some (SHA256 ''a.bcd@efg'')
   \<and> CHR ''.'' \<notin> set (after_last (CHR ''@'') ''a.bcd@efg'')
   \<and> process_email (Some ''a@b.c'') = Some (SHA256 ''a@b.c'')
   \<and> length ''a@b.c'' = 5"
  by code_simp

text \<open>
  C6, as amended, for ASCII text: both scripts trim and lowercase the value and hash the
  result. The main
  script produces the hashed email exactly when the result has exactly one at sign, at least
  6 characters and a dot anywhere. The earlier script produces it exactly when the result has
  an at sign and a dot after the last at sign, of any length and with any number of at signs.
  In both, the email identifier is emitted exactly for a produced hash, and the email counter
  goes up by one exactly then (in the main script, for a row the brand filter lets through;
  in the earlier script, whatever the client library does afterwards).
\<close>

theorem email_rule:
  assumes "ascii_field email_raw" and "ascii_row row"
  shows "row_hashed_email email_raw =
     (case email_raw of
        None \<Rightarrow> None
      | Some e \<Rightarrow>
          (let normalized_email = strip (lower e) in
           if count_list normalized_email (CHR ''@'') = 1 \<and> 6 \<le> length normalized_email
              \<and> CHR ''.'' \<in> set normalized_email
           then Some (SHA256 normalized_email) else None))
   \<and> process_email email_raw =
     (case email_raw of
        None \<Rightarrow> None
      | Some e \<Rightarrow>
          (let email_norm = strip (lower e) in
           if CHR ''@'' \<in> set email_norm \<and> CHR ''.'' \<in> set (after_last (CHR ''@'') email_norm)
           then Some (SHA256 email_norm) else None))
   \<and> (Hashed_email h \<in> set (row_user_identifiers lib row)
        \<longleftrightarrow> row_hashed_email (clean_field (row_email row)) = Some h)
   \<and> (Hashed_email h \<in> set (row_user_identifiers_attached lib row)
        \<longleftrightarrow> process_email (clean_field (row_email row)) = Some h)
   \<and> email_processed_count (process_customer_row lib u row) =
       email_processed_count u +
         (if \<not> skipped_by_brand u row \<and> row_hashed_email (clean_field (row_email row)) \<noteq> None
          then 1 else 0)
   \<and> email_processed_count (process_customer_row_attached lib outcome v row) =
       email_processed_count v +
         (if process_email (clean_field (row_email row)) \<noteq> None then 1 else 0)"
proof -
  have a: "Hashed_email h \<in> set (row_user_identifiers lib row)
        \<longleftrightarrow> row_hashed_email (clean_field (row_email row)) = Some h"
    by (auto simp: row_user_identifiers_eq split: option.splits)
  have b: "Hashed_email h \<in> set (row_user_identifiers_attached lib row)
        \<longleftrightarrow> process_email (clean_field (row_email row)) = Some h"
    by (auto simp: row_user_identifiers_attached_eq split: option.splits)
  show ?thesis
    using row_hashed_email_eq [of email_raw] process_email_eq [of email_raw] a b
      email_count_main [of lib u row] email_count_attached [of lib outcome v row]
    by blast
qed

theorem email_rule_witness:
  "row_hashed_email (clean_field (row_email sample_row)) = Some (SHA256 ''jane.doe@example.com'')
   \<and> count_list ''jane.doe@example.com'' (CHR ''@'') = 1
   \<and> process_email (clean_field (row_email sample_row)) = Some (SHA256 ''jane.doe@example.com'')
   \<and> row_hashed_email (Some ''a@b.c'') = None
   \<and> process_email (Some ''a.bcd@efg'') = None"
proof -
  have c: "clean_field (row_email sample_row) = Some ''JANE.DOE@Example.com''"
    by code_simp
  have n: "strip (lower ''JANE.DOE@Example.com'') = ''jane.doe@example.com''"
    by code_simp
  have m: "strip (lower ''a@b.c'') = ''a@b.c''" "strip (lower ''a.bcd@efg'') = ''a.bcd@efg''"
    by code_simp+
  have d: "CHR ''.'' \<in> set (after_last (CHR ''@'') ''jane.doe@example.com'')"
    "CHR ''.'' \<notin> set (after_last (CHR ''@'') ''a.bcd@efg'')"
    by code_simp+
  have f: "ascii_field (Some ''JANE.DOE@Example.com'')" "ascii_field (Some ''a@b.c'')"
    "ascii_field (Some ''a.bcd@efg'')"
    by code_simp+
  have r: "ascii_row sample_row" by code_simp
  show ?thesis
    using email_rule [OF f(1) r, THEN conjunct1]
      email_rule [OF f(1) r, THEN conjunct2, THEN conjunct1]
      email_rule [OF f(2) r, THEN conjunct1]
      email_rule [OF f(3) r, THEN conjunct2, THEN conjunct1]
    by (simp add: c n m d Let_def)
qed

text \<open>
  C5, as stated: a state code is accepted only if it is exactly two letters, and the postal
  component is emitted only when state code and postal code are both present. The main script
  never reads the state code: a row without one still gets the country code and the address
  identifier. The earlier script accepts any two characters, such as two digits.
\<close>

theorem state_code_counterexample:
  "row_state_code no_state_row = None
   \<and> row_user_identifiers sample_phonenumbers no_state_row
     = [Hashed_email (SHA256 ''jane.doe@example.com''),
        Hashed_phone_number (SHA256 ''+12064567890''),
        Address_info (Some (SHA256 ''jane'')) (Some (SHA256 ''doe'')) (Some ''US'')
          (Some ''98101'')]
   \<and> country_attached (Some ''12'') = Some ''US''"
  by code_simp

text \<open>
  C5, as amended, for ASCII text. The earlier script sets the country code to US exactly when
  the trimmed, uppercased state code has two characters, whatever they are (uppercasing
  keeps the length of ASCII text), sets the postal code to the first five
  digits exactly when at least five digits remain after removing every other character, and
  emits an address identifier only when both are set. The main script does not read the state
  code: it sets the country code to US whenever the trimmed zip field has at least five
  characters, sets the postal code to the first five digits exactly when at least five digits
  remain, and emits an address identifier only when the postal code is set.
\<close>

theorem postal_path:
  assumes "ascii_field state_code_raw" and "ascii_field zip_code_raw" and "ascii_row row"
  shows "country_attached state_code_raw =
     (if truthy state_code_raw \<and> length (upper (strip (the state_code_raw))) = 2
      then Some ''US'' else None)
   \<and> length (upper (strip (the state_code_raw))) = length (strip (the state_code_raw))
   \<and> postal_attached zip_code_raw =
     (if zip_accepted zip_code_raw then Some (take 5 (digits_of (the zip_code_raw))) else None)
   \<and> row_postal zip_code_raw =
     (if zip_accepted zip_code_raw
      then (Some ''US'', Some (take 5 (digits_of (the zip_code_raw))))
      else if truthy zip_code_raw \<and> 5 \<le> length (the zip_code_raw) then (Some ''US'', None)
      else (None, None))
   \<and> (Address_info a b c d \<in> set (row_user_identifiers_attached lib row) \<longrightarrow>
        country_attached (clean_field (row_state_code row)) = Some ''US'' \<and> c = Some ''US''
        \<and> postal_attached (clean_field (row_zip_code row)) = d \<and> d \<noteq> None)
   \<and> (Address_info a b c d \<in> set (row_user_identifiers lib row) \<longrightarrow>
        row_postal (clean_field (row_zip_code row)) = (c, d) \<and> c = Some ''US'' \<and> d \<noteq> None)"
proof -
  have att: "Address_info a b c d \<in> set (row_user_identifiers_attached lib row) \<longrightarrow>
        country_attached (clean_field (row_state_code row)) = Some ''US'' \<and> c = Some ''US''
        \<and> postal_attached (clean_field (row_zip_code row)) = d \<and> d \<noteq> None"
    by (auto simp: row_user_identifiers_attached_eq country_attached_eq postal_attached_eq
          split: option.splits if_splits)
  have main: "Address_info a b c d \<in> set (row_user_identifiers lib row) \<longrightarrow>
        row_postal (clean_field (row_zip_code row)) = (c, d) \<and> c = Some ''US'' \<and> d \<noteq> None"
    by (auto simp: row_user_identifiers_eq row_postal_eq split: option.splits if_splits)
  have len: "length (upper (strip (the state_code_raw))) = length (strip (the state_code_raw))"
    by (simp add: upper_def)
  show ?thesis
    using country_attached_eq [of state_code_raw] postal_attached_eq [of zip_code_raw]
      row_postal_eq [of zip_code_raw] att main len
    by blast
qed

theorem postal_path_witness:
  "country_attached (Some ''WA'') = Some ''US''
   \<and> country_attached (Some ''Washington'') = None
   \<and> postal_attached (Some ''98101-1'') = Some ''98101''
   \<and> postal_attached (Some ''9810'') = None
   \<and> row_postal (Some ''98-10'') = (Some ''US'', None)
   \<and> row_postal (Some ''98101-1'') = (Some ''US'', Some ''98101'')"
proof -
  have s: "truthy (Some ''WA'')" "length (upper (strip (the (Some ''WA'')))) = 2"
    "truthy (Some ''Washington'')" "length (upper (strip (the (Some ''Washington'')))) \<noteq> 2"
    by code_simp+
  have z: "zip_accepted (Some ''98101-1'')"
    "take 5 (digits_of (the (Some ''98101-1''))) = ''98101''"
    "\<not> zip_accepted (Some ''9810'')" "\<not> zip_accepted (Some ''98-10'')"
    "truthy (Some ''98-10'')" "5 \<le> length (the (Some ''98-10''))"
    by code_simp+
  have f: "ascii_field (Some ''WA'')" "ascii_field (Some ''Washington'')"
    "ascii_field (Some ''98101-1'')" "ascii_field (Some ''9810'')" "ascii_field (Some ''98-10'')"
    by code_simp+
  have r: "ascii_row sample_row" by code_simp
  show ?thesis
    using postal_path [OF f(1) f(3) r, THEN conjunct1]
      postal_path [OF f(2) f(3) r, THEN conjunct1]
      postal_path [OF f(1) f(3) r, THEN conjunct2, THEN conjunct2, THEN conjunct1]
      postal_path [OF f(1) f(4) r, THEN conjunct2, THEN conjunct2, THEN conjunct1]
      postal_path [OF f(1) f(5) r, THEN conjunct2, THEN conjunct2, THEN conjunct2,
        THEN conjunct1]
      postal_path [OF f(1) f(3) r, THEN conjunct2, THEN conjunct2, THEN conjunct2,
        THEN conjunct1]
    by (simp only: s z if_True if_False simp_thms)
qed

text \<open>
  C7, as stated: the value hashed for a phone identifier is the E.164 string of the number
  parsed from the digits of the raw value. The CSV uploader hashes the trimmed, lowercased
  raw value with its punctuation, without parsing it.
\<close>

theorem phone_hash_counterexample:
  "create_user_data_operations [phone_customer]
     = [[Hashed_phone_number (SHA256 ''(206) 456-7890'')]]"
  by code_simp

text \<open>
  C7, as amended, for ASCII text. In the main script a phone of at least 10 characters with
  at least one
  digit is parsed from its digits with default region US, and again with a leading plus sign
  when that fails and the digits start with 1 and are more than 10; the identifier is the hash
  of the E.164 string of a parsed, valid number. In the earlier script a phone with at least
  7 digits is parsed as it stands, with default region US and no second attempt; the
  identifier is the hash of the E.164 string of a valid number when that string starts with a
  plus sign. In both, every other phone gives no identifier and the row is processed as
  usual. The CSV uploader hashes the trimmed, lowercased value of a non-empty phone column.
\<close>

theorem phone_rule:
  assumes "ascii_field phone_raw" and "ascii_row row" and "ascii_field (customer ''phone'')"
  shows "row_hashed_phone lib phone_raw =
     (if truthy phone_raw \<and> 10 \<le> length (the phone_raw) \<and> digits_of (the phone_raw) \<noteq> []
      then (case (case parse lib (digits_of (the phone_raw)) (Some ''US'') of
                    Some phone_obj \<Rightarrow> Some phone_obj
                  | None \<Rightarrow>
                      if take 1 (digits_of (the phone_raw)) = ''1''
                         \<and> 10 < length (digits_of (the phone_raw))
                      then parse lib (CHR ''+'' # digits_of (the phone_raw)) None
                      else None) of
              None \<Rightarrow> None
            | Some phone_obj \<Rightarrow>
                if is_valid_number lib phone_obj
                then Some (SHA256 (format_e164 lib phone_obj)) else None)
      else None)
   \<and> process_phone lib phone_raw =
     (if truthy phone_raw \<and> 7 \<le> length (digits_of (the phone_raw))
      then (case parse lib (the phone_raw) (Some ''US'') of
              None \<Rightarrow> None
            | Some phone_parsed \<Rightarrow>
                if is_valid_number lib phone_parsed
                   \<and> take 1 (format_e164 lib phone_parsed) = ''+''
                then Some (SHA256 (format_e164 lib phone_parsed)) else None)
      else None)
   \<and> (Hashed_phone_number h \<in> set (row_user_identifiers lib row)
        \<longleftrightarrow> row_hashed_phone lib (clean_field (row_phone row)) = Some h)
   \<and> (Hashed_phone_number h \<in> set (row_user_identifiers_attached lib row)
        \<longleftrightarrow> process_phone lib (clean_field (row_phone row)) = Some h)
   \<and> (Hashed_phone_number h \<in> set (customer_operation customer)
        \<longleftrightarrow> truthy (customer ''phone'')
            \<and> h = SHA256 (lower (strip (the (customer ''phone'')))))"
proof -
  have main: "row_hashed_phone lib phone_raw =
     (if truthy phone_raw \<and> 10 \<le> length (the phone_raw) \<and> digits_of (the phone_raw) \<noteq> []
      then (case (case parse lib (digits_of (the phone_raw)) (Some ''US'') of
                    Some phone_obj \<Rightarrow> Some phone_obj
                  | None \<Rightarrow>
                      if take 1 (digits_of (the phone_raw)) = ''1''
                         \<and> 10 < length (digits_of (the phone_raw))
                      then parse lib (CHR ''+'' # digits_of (the phone_raw)) None
                      else None) of
              None \<Rightarrow> None
            | Some phone_obj \<Rightarrow>
                if is_valid_number lib phone_obj
                then Some (SHA256 (format_e164 lib phone_obj)) else None)
      else None)"
    by (cases phone_raw)
       (auto simp: row_hashed_phone_def parse_clean_phone_def default_region_def truthy_def
          Let_def split: option.splits)
  have att: "process_phone lib phone_raw =
     (if truthy phone_raw \<and> 7 \<le> length (digits_of (the phone_raw))
      then (case parse lib (the phone_raw) (Some ''US'') of
              None \<Rightarrow> None
            | Some phone_parsed \<Rightarrow>
                if is_valid_number lib phone_parsed
                   \<and> take 1 (format_e164 lib phone_parsed) = ''+''
                then Some (SHA256 (format_e164 lib phone_parsed)) else None)
      else None)"
    by (cases phone_raw)
       (auto simp: process_phone_def default_region_def truthy_def Let_def
          split: option.splits)
  have a: "Hashed_phone_number h \<in> set (row_user_identifiers lib row)
        \<longleftrightarrow> row_hashed_phone lib (clean_field (row_phone row)) = Some h"
    by (auto simp: row_user_identifiers_eq split: option.splits)
  have b: "Hashed_phone_number h \<in> set (row_user_identifiers_attached lib row)
        \<longleftrightarrow> process_phone lib (clean_field (row_phone row)) = Some h"
    by (auto simp: row_user_identifiers_attached_eq split: option.splits)
  have c: "Hashed_phone_number h \<in> set (customer_operation customer)
        \<longleftrightarrow> truthy (customer ''phone'')
            \<and> h = SHA256 (lower (strip (the (customer ''phone''))))"
    by (auto simp: customer_operation_def hash_data_def)
  show ?thesis using main att a b c by blast
qed

theorem phone_rule_witness:
  "row_hashed_phone sample_phonenumbers (Some ''(206) 456-7890'')
     = Some (SHA256 ''+12064567890'')
   \<and> process_phone sample_phonenumbers (Some ''(206) 456-7890'')
     = Some (SHA256 ''+12064567890'')
   \<and> row_hashed_phone sample_phonenumbers (Some ''123'') = None
   \<and> process_phone sample_phonenumbers (Some ''123'') = None"
proof -
  have m: "row_hashed_phone sample_phonenumbers (Some ''(206) 456-7890'')
     = Some (SHA256 ''+12064567890'')"
    by code_simp
  have p: "process_phone sample_phonenumbers (Some ''(206) 456-7890'')
     = Some (SHA256 ''+12064567890'')"
    by code_simp
  have s: "\<not> 10 \<le> length (the (Some ''123''))" "\<not> 7 \<le> length (digits_of (the (Some ''123'')))"
    by code_simp+
  have f: "ascii_field (Some ''123'')" by code_simp
  have r: "ascii_row sample_row" by code_simp
  have c: "ascii_field (phone_customer ''phone'')" by code_simp
  show ?thesis
    using phone_rule [where customer = phone_customer and lib = sample_phonenumbers,
        OF f r c, THEN conjunct1]
      phone_rule [where customer = phone_customer and lib = sample_phonenumbers,
        OF f r c, THEN conjunct2, THEN conjunct1]
    by (simp only: m p s simp_thms if_False)
qed

section \<open>Batches\<close>

lemma ceil_div_int:
  fixes a b :: int
  assumes "0 < b"
  shows "- (- a div b) = (a + b - 1) div b"
proof -
  define q r where "q = a div b" and "r = a mod b"
  have a: "a = b * q + r" by (simp add: q_def r_def)
  have r: "0 \<le> r" "r < b" using assms by (simp_all add: r_def)
  have l: "- a div b = (if r = 0 then - q else - q - 1)"
    using assms by (simp add: zdiv_zminus1_eq_if q_def r_def)
  have "(a + b - 1) div b = (b * q + (r + b - 1)) div b"
    by (simp add: a algebra_simps)
  also have "\<dots> = q + (r + b - 1) div b"
    using assms by (subst div_mult_self4) simp_all
  also have "(r + b - 1) div b = (if r = 0 then 0 else 1)"
  proof (cases "r = 0")
    case True
    then show ?thesis using assms by simp
  next
    case False
    then have "(r + b - 1) = (r - 1) + b" "0 \<le> r - 1" "r - 1 < b" using r by auto
    then have "(r + b - 1) div b = (r - 1) div b + 1"
      using assms by (metis div_add_self2 less_irrefl)
    also have "(r - 1) div b = 0" using \<open>0 \<le> r - 1\<close> \<open>r - 1 < b\<close> by simp
    finally show ?thesis using False by simp
  qed
  finally show ?thesis using l by auto
qed

lemma batches_count_ceiling:
  assumes "0 < batch_size"
  shows "batches_count ops batch_size = \<lceil>real (length ops) / real_of_int batch_size\<rceil>"
proof -
  have "\<lceil>real_of_int (int (length ops)) / real_of_int batch_size\<rceil>
          = - (- int (length ops) div batch_size)"
    by (rule ceiling_divide_eq_div)
  also have "\<dots> = (int (length ops) + batch_size - 1) div batch_size"
    using assms by (rule ceil_div_int)
  finally show ?thesis by (simp add: batches_count_def)
qed

lemma py_slice_nonneg:
  "0 \<le> a \<Longrightarrow> a \<le> b \<Longrightarrow> py_slice xs a b = take (nat (b - a)) (drop (nat a) xs)"
  by (cases "a < int (length xs)"; cases "b \<le> int (length xs)")
     (auto simp: py_slice_def Let_def min_def max_def nat_diff_distrib)

lemma take_chunk:
  "take (nat (min (s + b) (int (length xs)) - s)) (drop (nat s) xs) = take (nat b) (drop (nat s) xs)"
  if "0 \<le> s" "0 < b"
  using that by (auto simp: min_def nat_diff_distrib)

lemma current_batch_eq:
  assumes "0 < batch_size"
  shows "current_batch ops batch_size k = take (nat batch_size) (drop (k * nat batch_size) ops)"
proof -
  have s: "0 \<le> int k * batch_size" using assms by simp
  have n: "nat (int k * batch_size) = k * nat batch_size"
    using assms by (simp add: nat_mult_distrib)
  show ?thesis
  proof (cases "int k * batch_size \<le> int (length ops)")
    case True
    then have le: "int k * batch_size \<le> min (int k * batch_size + batch_size) (int (length ops))"
      using assms by simp
    show ?thesis
      unfolding current_batch_def Let_def py_slice_nonneg [OF s le]
      using take_chunk [OF s assms, of ops] n by simp
  next
    case False
    then have "length ops \<le> k * nat batch_size" using n by linarith
    then have r: "take (nat batch_size) (drop (k * nat batch_size) ops) = []" by simp
    have "py_slice ops (int k * batch_size)
            (min (int k * batch_size + batch_size) (int (length ops))) = []"
      using False s by (simp add: py_slice_def Let_def min_def)
    then show ?thesis by (simp add: current_batch_def Let_def r)
  qed
qed

lemma concat_chunks:
  "concat (map (\<lambda>k. take b (drop (k * b) xs)) [0..<c]) = take (c * b) xs"
proof (induction c)
  case 0
  then show ?case by simp
next
  case (Suc c)
  have "take (c * b) xs @ take b (drop (c * b) xs) = take (c * b + b) xs"
    by (simp add: take_add)
  then show ?case using Suc by (simp add: add.commute)
qed

lemma batches_eq:
  assumes "0 < batch_size"
  shows "batches ops batch_size =
           map (\<lambda>k. take (nat batch_size) (drop (k * nat batch_size) ops))
             [0..<nat (batches_count ops batch_size)]"
  using assms by (simp add: batches_def current_batch_eq)

lemma batches_count_covers:
  assumes "0 < batch_size"
  shows "length ops \<le> nat (batches_count ops batch_size) * nat batch_size"
proof -
  let ?x = "int (length ops) + batch_size - 1"
  have "?x mod batch_size < batch_size" using assms by simp
  moreover have "?x = ?x div batch_size * batch_size + ?x mod batch_size" by simp
  ultimately have "?x < ?x div batch_size * batch_size + batch_size" by linarith
  then have le: "int (length ops) \<le> batches_count ops batch_size * batch_size"
    by (simp add: batches_count_def)
  have nn: "0 \<le> batches_count ops batch_size"
    using assms by (simp add: batches_count_def pos_imp_zdiv_nonneg_iff)
  have "int (nat (batches_count ops batch_size) * nat batch_size)
          = batches_count ops batch_size * batch_size"
    using nn assms by simp
  then show ?thesis using le by linarith
qed

lemma concat_batches:
  assumes "0 < batch_size"
  shows "concat (batches ops batch_size) = ops"
  using batches_count_covers [OF assms, of ops]
  by (simp add: batches_eq [OF assms] concat_chunks)

lemma py_range_eq:
  "0 < step \<Longrightarrow>
   py_range i n step = map (\<lambda>k. i + int k * step) [0..<nat ((n - i + step - 1) div step)]"
proof (induction i n step rule: py_range.induct)
  case (1 i n step)
  show ?case
  proof (cases "i < n")
    case False
    then have "(n - i + step - 1) div step \<le> (step - 1) div step"
      using "1.prems" by (intro zdiv_mono1) simp_all
    then have "(n - i + step - 1) div step \<le> 0"
      using "1.prems" by simp
    then show ?thesis using False by (simp add: py_range.simps [of i n step])
  next
    case True
    have "(n - i + step - 1) div step = (n - (i + step) + step - 1) div step + 1"
    proof -
      have "n - i + step - 1 = (n - (i + step) + step - 1) + step" by simp
      then show ?thesis using "1.prems" by (metis div_add_self2 less_irrefl)
    qed
    moreover have "0 \<le> (n - (i + step) + step - 1) div step"
      using True "1.prems" by (simp add: pos_imp_zdiv_nonneg_iff)
    ultimately have c: "nat ((n - i + step - 1) div step)
                      = Suc (nat ((n - (i + step) + step - 1) div step))"
      by simp
    have ih: "py_range (i + step) n step =
                map (\<lambda>k. i + step + int k * step)
                  [0..<nat ((n - (i + step) + step - 1) div step)]"
      using "1.IH" True "1.prems" by simp
    have "py_range i n step = i # py_range (i + step) n step"
      using True "1.prems" by (simp add: py_range.simps [of i n step])
    also have "\<dots> = map (\<lambda>k. i + int k * step)
                        [0..<Suc (nat ((n - (i + step) + step - 1) div step))]"
      unfolding ih
      by (simp add: upt_conv_Cons map_Suc_upt [symmetric] algebra_simps del: upt_Suc)
    finally show ?thesis by (simp only: c)
  qed
qed

lemma operation_batches_eq:
  assumes "0 < api_batch_size"
  shows "operation_batches ops api_batch_size = batches ops api_batch_size"
proof -
  have r: "py_range 0 (int (length ops)) api_batch_size
             = map (\<lambda>k. int k * api_batch_size) [0..<nat (batches_count ops api_batch_size)]"
    using py_range_eq [OF assms, of 0 "int (length ops)"] by (simp add: batches_count_def)
  have sl: "py_slice ops (int k * api_batch_size) (int k * api_batch_size + api_batch_size)
          = take (nat api_batch_size) (drop (k * nat api_batch_size) ops)" for k
  proof -
    have a: "0 \<le> int k * api_batch_size" using assms by simp
    have b: "int k * api_batch_size \<le> int k * api_batch_size + api_batch_size"
      using assms by simp
    have c: "nat (int k * api_batch_size) = k * nat api_batch_size"
      using assms by (simp add: nat_mult_distrib)
    show ?thesis unfolding py_slice_nonneg [OF a b] c by simp
  qed
  show ?thesis
    unfolding operation_batches_def r batches_eq [OF assms] map_map comp_def sl ..
qed

lemma upt_5: "[0..<5] = [0, 1, 2, 3, 4]"
  by code_simp

lemma batch_sizes_12001:
  assumes "length ops = 12001"
  shows "map length (batches ops 2500) = [2500, 2500, 2500, 2500, 2001]"
proof -
  have c: "nat (batches_count ops 2500) = 5"
    using assms by (simp add: batches_count_def)
  have "map length (batches ops 2500)
          = map (\<lambda>k. min 2500 (12001 - k * 2500)) [0..<5]"
    using assms by (simp add: batches_eq c comp_def min.commute)
  then show ?thesis by (simp add: upt_5)
qed

section \<open>Claims about batching\<close>

text \<open>
  C8, as stated: 12001 operations with batch size 2500 give batches of 2500, 2500, 2500, 2500
  and 1001 operations. Four batches of 2500 leave 2001 operations for the fifth.
\<close>

theorem batch_sizes_counterexample:
  "map length (batches (replicate 12001 (0::nat)) 2500) = [2500, 2500, 2500, 2500, 2001]
   \<and> map length (batches (replicate 12001 (0::nat)) 2500) \<noteq> [2500, 2500, 2500, 2500, 1001]"
proof -
  have "length (replicate 12001 (0::nat)) = 12001" by simp
  then have "map length (batches (replicate 12001 (0::nat)) 2500)
               = [2500, 2500, 2500, 2500, 2001]"
    by (rule batch_sizes_12001)
  then show ?thesis by simp
qed

text \<open>
  C8, as amended. With a positive batch size, the number of batches is the ceiling of the
  number of operations divided by the batch size; batch \<open>k\<close> is the slice of \<open>batch_size\<close>
  operations starting at position \<open>k * batch_size\<close>, so the batches are consecutive and keep the
  order, and together they are the whole list; the earlier script builds the same batches. A
  list of 12001 operations with batch size 2500 gives five batches of 2500, 2500, 2500, 2500
  and 2001 operations.
\<close>

theorem batch_partition:
  assumes "0 < batch_size"
  shows "int (length (batches ops batch_size))
           = \<lceil>real (length ops) / real_of_int batch_size\<rceil>
    \<and> batches ops batch_size
        = map (\<lambda>k. take (nat batch_size) (drop (k * nat batch_size) ops))
            [0..<length (batches ops batch_size)]
    \<and> concat (batches ops batch_size) = ops
    \<and> operation_batches ops batch_size = batches ops batch_size
    \<and> (length ops = 12001 \<and> batch_size = 2500 \<longrightarrow>
          map length (batches ops batch_size) = [2500, 2500, 2500, 2500, 2001])"
proof -
  have nn: "0 \<le> batches_count ops batch_size"
    using assms by (simp add: batches_count_def pos_imp_zdiv_nonneg_iff)
  have len: "length (batches ops batch_size) = nat (batches_count ops batch_size)"
    by (simp add: batches_def)
  have a: "int (length (batches ops batch_size))
             = \<lceil>real (length ops) / real_of_int batch_size\<rceil>"
    using nn batches_count_ceiling [OF assms, of ops] by (simp add: len)
  have b: "batches ops batch_size
        = map (\<lambda>k. take (nat batch_size) (drop (k * nat batch_size) ops))
            [0..<length (batches ops batch_size)]"
    unfolding len by (rule batches_eq [OF assms])
  show ?thesis
    using a b concat_batches [OF assms, of ops] operation_batches_eq [OF assms, of ops]
      batch_sizes_12001 [of ops]
    by blast
qed

theorem batch_partition_witness:
  "map length (batches (replicate 12001 (0::nat)) 2500) = [2500, 2500, 2500, 2500, 2001]
   \<and> length (batches (replicate 12001 (0::nat)) 2500) = 5
   \<and> concat (batches (replicate 12001 (0::nat)) 2500) = replicate 12001 0
   \<and> operation_batches (replicate 12001 (0::nat)) 2500 = batches (replicate 12001 0) 2500"
proof -
  have p: "(0::int) < 2500" by simp
  have l: "length (replicate 12001 (0::nat)) = 12001" by simp
  note t = batch_partition [OF p, of "replicate 12001 (0::nat)"]
  have s: "map length (batches (replicate 12001 (0::nat)) 2500) = [2500, 2500, 2500, 2500, 2001]"
    using t l by blast
  have "length (map length (batches (replicate 12001 (0::nat)) 2500)) = 5"
    unfolding s by simp
  then have n: "length (batches (replicate 12001 (0::nat)) 2500) = 5" by simp
  show ?thesis using t s n by blast
qed

section \<open>Retries\<close>

lemma add_with_retries_terminal:
  assumes "add attempt = Some e"
    and "\<not> contains ''ConcurrentModificationException'' (str e)"
  shows "add_with_retries add (attempt # rest) = (False, [attempt])"
  using assms by simp

lemma add_with_retries_retry_cause:
  "add_with_retries add attempts = (success, made) \<Longrightarrow> Suc i < length made \<Longrightarrow>
   \<exists>e. add (made ! i) = Some e \<and> contains ''ConcurrentModificationException'' (str e)"
proof (induction attempts arbitrary: success made i)
  case Nil
  then show ?case by simp
next
  case (Cons attempt rest)
  show ?case
  proof (cases "add attempt")
    case None
    then show ?thesis using Cons.prems by auto
  next
    case (Some e)
    show ?thesis
    proof (cases "contains ''ConcurrentModificationException'' (str e)")
      case False
      then show ?thesis using Some Cons.prems by auto
    next
      case True
      obtain s m where r: "add_with_retries add rest = (s, m)" by (cases "add_with_retries add rest")
      then have made: "made = attempt # m" using Some True Cons.prems(1) by simp
      show ?thesis
      proof (cases i)
        case 0
        then show ?thesis using made Some True by simp
      next
        case (Suc j)
        then have "Suc j < length m" using made Cons.prems(2) by simp
        from Cons.IH [OF r this] show ?thesis using made Suc by simp
      qed
    qed
  qed
qed

lemma batch_results_nth:
  "k < nat (batches_count ops (API_BATCH_SIZE cfg)) \<Longrightarrow>
   batch_results cfg svc ops ! k
     = add_with_retries (add_operations svc k) [0..<nat (API_RETRY_COUNT cfg)]"
  by (simp add: batch_results_def)

lemma retry_loop_terminal:
  assumes "add retry = Some (GoogleAdsException error_msg s)"
    and "\<not> contains ''CONCURRENT_MODIFICATION'' error_msg"
  shows "retry_loop add max_retries (retry # rest) = (False, [retry])"
  using assms by simp

lemma retry_loop_other:
  assumes "\<forall>r \<in> set retries. \<exists>s. add r = Some (OtherException s)"
  shows "retry_loop add max_retries retries
           = (False, takeWhile (\<lambda>r. int r < max_retries) retries
                @ take 1 (dropWhile (\<lambda>r. int r < max_retries) retries))"
  using assms
proof (induction retries)
  case Nil
  then show ?case by simp
next
  case (Cons r rest)
  then obtain s where s: "add r = Some (OtherException s)" by auto
  show ?case
  proof (cases "int r < max_retries")
    case True
    then show ?thesis using s Cons by simp
  next
    case False
    then show ?thesis using s by simp
  qed
qed

lemma upload_batch_with_retry_other:
  assumes "\<forall>r. \<exists>s. add r = Some (OtherException s)"
  shows "upload_batch_with_retry cfg add = (False, [0..<nat (API_RETRY_COUNT cfg + 1)])"
proof -
  let ?m = "API_RETRY_COUNT cfg"
  have "takeWhile (\<lambda>r. int r < ?m) [0..<nat (?m + 1)]
          @ take 1 (dropWhile (\<lambda>r. int r < ?m) [0..<nat (?m + 1)]) = [0..<nat (?m + 1)]"
  proof (cases "0 \<le> ?m")
    case False
    then show ?thesis by simp
  next
    case True
    then have u: "[0..<nat (?m + 1)] = [0..<nat ?m] @ [nat ?m]"
      by (simp add: nat_add_distrib)
    have t: "takeWhile (\<lambda>r. int r < ?m) ([0..<nat ?m] @ [nat ?m]) = [0..<nat ?m]"
      using True by (subst takeWhile_append2) auto
    have d: "dropWhile (\<lambda>r. int r < ?m) ([0..<nat ?m] @ [nat ?m]) = [nat ?m]"
      using True by (subst dropWhile_append2) auto
    show ?thesis unfolding u t d by simp
  qed
  then show ?thesis
    using retry_loop_other [of "[0..<nat (?m + 1)]" add ?m] assms
    by (simp add: upload_batch_with_retry_def)
qed

lemma batch_results_attached_nth:
  "k < length (operation_batches ops (API_BATCH_SIZE cfg)) \<Longrightarrow>
   batch_results_attached cfg svc ops ! k = upload_batch_with_retry cfg (add_operations svc k)"
  by (simp add: batch_results_attached_def)

section \<open>Claims about the upload\<close>

text \<open>
  C4, as stated: a retry happens only for a concurrent modification, and any other error gives
  exactly one submission of the batch. In the earlier script an exception that is not a
  \<open>GoogleAdsException\<close> is retried while retries are left: with 3 retries the batch is
  submitted 4 times.
\<close>

theorem retry_counterexample:
  "upload_batch_with_retry default_config (refused 0) = (False, [0, 1, 2, 3])"
  by code_simp

text \<open>
  C4, as amended. In the main script, an attempt is followed by another one only when it
  raised an exception whose text contains \<open>ConcurrentModificationException\<close>; an attempt that
  raises any other exception is the last one of its batch, so such an exception at the first
  attempt gives exactly one submission; the batch is failed and every other batch still gets
  its own retry loop. In the earlier script, a \<open>GoogleAdsException\<close> whose failure text does
  not contain \<open>CONCURRENT_MODIFICATION\<close> ends the attempts of its batch, so at the first
  attempt it gives exactly one submission, and the other batches are submitted as usual; an
  exception of any other class is retried until \<open>API_RETRY_COUNT\<close> retries are used up.
\<close>

theorem retry_only_on_transient:
  "(add_with_retries add attempts = (success, made) \<and> Suc i < length made \<longrightarrow>
      (\<exists>e. add (made ! i) = Some e \<and> contains ''ConcurrentModificationException'' (str e)))
   \<and> (add attempt = Some e \<and> \<not> contains ''ConcurrentModificationException'' (str e) \<longrightarrow>
      add_with_retries add (attempt # rest) = (False, [attempt]))
   \<and> (k < nat (batches_count ops (API_BATCH_SIZE cfg)) \<longrightarrow>
      batch_results cfg svc ops ! k
        = add_with_retries (add_operations svc k) [0..<nat (API_RETRY_COUNT cfg)])
   \<and> (add attempt = Some (GoogleAdsException error_msg s)
        \<and> \<not> contains ''CONCURRENT_MODIFICATION'' error_msg \<longrightarrow>
      retry_loop add max_retries (attempt # rest) = (False, [attempt]))
   \<and> (k < length (operation_batches ops (API_BATCH_SIZE cfg)) \<longrightarrow>
      batch_results_attached cfg svc ops ! k
        = upload_batch_with_retry cfg (add_operations svc k))
   \<and> ((\<forall>r. \<exists>s. add r = Some (OtherException s)) \<longrightarrow>
      upload_batch_with_retry cfg add = (False, [0..<nat (API_RETRY_COUNT cfg + 1)]))"
  using add_with_retries_retry_cause [of add attempts success made i]
    add_with_retries_terminal [of add attempt e rest]
    batch_results_nth [of k ops cfg svc]
    retry_loop_terminal [of add attempt error_msg s max_retries rest]
    batch_results_attached_nth [of k ops cfg svc]
    upload_batch_with_retry_other [of add cfg]
  by blast

theorem retry_only_on_transient_witness:
  "batch_results default_config refusing_service [1, 2, 3 :: nat] = [(False, [0])]
   \<and> add_with_retries (refused 0) [0, 1, 2] = (False, [0])
   \<and> add_with_retries (conflict_twice 0) [0, 1, 2] = (True, [0, 1, 2])
   \<and> conflict_twice 0 1
       = Some (GoogleAdsException ''CONCURRENT_MODIFICATION'' ''ConcurrentModificationException'')"
proof -
  have a: "refused 0 0 = Some (OtherException ''connection reset'')"
    by (simp add: refused_def)
  have b: "\<not> contains ''ConcurrentModificationException'' (str (OtherException ''connection reset''))"
    by code_simp
  have c: "add_with_retries (refused 0) [0, 1, 2] = (False, [0])"
    using retry_only_on_transient [THEN conjunct2, THEN conjunct1,
        of "refused 0" 0 "OtherException ''connection reset''" "[1, 2]"] a b
    by blast
  have d: "batch_results default_config refusing_service [1, 2, 3 :: nat] = [(False, [0])]"
    by code_simp
  have e: "add_with_retries (conflict_twice 0) [0, 1, 2] = (True, [0, 1, 2])"
    by code_simp
  have f: "conflict_twice 0 1
       = Some (GoogleAdsException ''CONCURRENT_MODIFICATION'' ''ConcurrentModificationException'')"
    by (simp add: conflict_twice_def)
  show ?thesis using c d e f by blast
qed

lemma upload_to_google_ads_success:
  assumes "processed_operations u \<noteq> []"
  shows "fst (upload_to_google_ads cfg svc u) \<longleftrightarrow>
           googleads_client u \<and> get_service_ok svc \<and> (\<exists>name. create_job svc = Inr name)
           \<and> API_BATCH_SIZE cfg \<noteq> 0 \<and> run_job svc = None"
  using assms
  by (auto simp: upload_to_google_ads_def Let_def split: sum.splits option.splits)

lemma upload_to_google_ads_attached_success:
  assumes "processed_operations u \<noteq> []"
  shows "fst (upload_to_google_ads_attached cfg svc u) \<longleftrightarrow>
           googleads_client u \<and> (\<exists>name. create_job svc = Inr name)
           \<and> API_BATCH_SIZE cfg \<noteq> 0 \<and> run_job svc = None
           \<and> list_ex fst (batch_results_attached cfg svc (processed_operations u))"
proof -
  have "0 < batch_success_count rs \<longleftrightarrow> list_ex fst rs" for rs :: "(bool \<times> nat list) list"
    by (induction rs) (auto simp: batch_success_count_def)
  then show ?thesis
    using assms
    by (auto simp: upload_to_google_ads_attached_def Let_def split: sum.splits option.splits)
qed

lemma upload_empty:
  "processed_operations u = [] \<Longrightarrow>
   fst (upload_to_google_ads cfg svc u) = googleads_client u
   \<and> fst (upload_to_google_ads_attached cfg svc u)"
  by (simp add: upload_to_google_ads_def upload_to_google_ads_attached_def)

text \<open>
  C3, as stated: a run in which no batch was uploaded reports failure even when the job-run
  call did not fail. In the main script, with every submission refused and the run call
  accepted, the upload returns \<open>True\<close>.
\<close>

theorem zero_batches_counterexample:
  "upload_to_google_ads default_config refusing_service loaded_uploader
     = (True, [Create_job, Add_operations 0 0, Run_job])
   \<and> map fst (batch_results default_config refusing_service
                 (processed_operations loaded_uploader)) = [False]"
  by code_simp

text \<open>
  C3, as amended. For a non-empty list of prepared operations: the upload of the earlier
  script returns success exactly when the job was created, the batch size is not 0, at least
  one batch was added and the job-run call did not raise; the upload of the main script
  returns success exactly when the services were obtained, the job was created, the batch
  size is not 0 and the job-run call did not raise, whatever happened to the batches.
\<close>

theorem upload_success_criterion:
  "(processed_operations v \<noteq> [] \<longrightarrow>
      (fst (upload_to_google_ads_attached cfg svc v) \<longleftrightarrow>
         googleads_client v \<and> (\<exists>name. create_job svc = Inr name)
         \<and> API_BATCH_SIZE cfg \<noteq> 0 \<and> run_job svc = None
         \<and> list_ex fst (batch_results_attached cfg svc (processed_operations v))))
   \<and> (processed_operations u \<noteq> [] \<longrightarrow>
      (fst (upload_to_google_ads cfg svc u) \<longleftrightarrow>
         googleads_client u \<and> get_service_ok svc \<and> (\<exists>name. create_job svc = Inr name)
         \<and> API_BATCH_SIZE cfg \<noteq> 0 \<and> run_job svc = None))"
  using upload_to_google_ads_attached_success [of v cfg svc]
    upload_to_google_ads_success [of u cfg svc]
  by blast

theorem upload_success_criterion_witness:
  "fst (upload_to_google_ads_attached default_config conflicting_service loaded_uploader)
   \<and> \<not> fst (upload_to_google_ads_attached default_config refusing_service loaded_uploader)
   \<and> fst (upload_to_google_ads default_config refusing_service loaded_uploader)
   \<and> processed_operations loaded_uploader \<noteq> []"
proof -
  have ne: "processed_operations loaded_uploader \<noteq> []"
    by (simp add: loaded_uploader_def)
  have c: "googleads_client loaded_uploader" "API_BATCH_SIZE default_config \<noteq> 0"
    by (simp_all add: loaded_uploader_def init_uploader_def default_config_def)
  have s: "create_job conflicting_service = Inr ''jobs/1''" "run_job conflicting_service = None"
    "create_job refusing_service = Inr ''jobs/1''" "run_job refusing_service = None"
    "get_service_ok refusing_service"
    by (simp_all add: conflicting_service_def refusing_service_def)
  have r: "list_ex fst (batch_results_attached default_config conflicting_service
                          (processed_operations loaded_uploader))"
    "\<not> list_ex fst (batch_results_attached default_config refusing_service
                          (processed_operations loaded_uploader))"
    by code_simp+
  show ?thesis
    using upload_success_criterion [of loaded_uploader default_config conflicting_service
        loaded_uploader]
      upload_success_criterion [of loaded_uploader default_config refusing_service
        loaded_uploader]
      ne c s r
    by blast
qed

section \<open>The job monitor\<close>

lemma elapsed_after_lower: "int (10 * m) \<le> elapsed_after latency k m"
proof (induction m arbitrary: k)
  case 0
  then show ?case by simp
next
  case (Suc m)
  have "int (10 * m) \<le> elapsed_after latency (Suc k) m" by (rule Suc.IH)
  moreover have "0 \<le> int (latency k)" by simp
  ultimately show ?case by (simp del: of_nat_mult)
qed

lemma wait_loop_step:
  assumes "elapsed < timeout_seconds" and "pending (poll k)"
  shows "wait_loop poll latency timeout_seconds k elapsed
           = wait_loop poll latency timeout_seconds (k + 1) (elapsed + int (latency k) + 10)"
  using assms
  by (auto simp: wait_loop.simps [of poll latency timeout_seconds k elapsed] pending_def
      split: sum.splits)

lemma wait_loop_skip:
  "\<forall>j<m. pending (poll (k + j)) \<Longrightarrow>
   elapsed + elapsed_after latency k m < timeout_seconds \<Longrightarrow>
   wait_loop poll latency timeout_seconds k elapsed
     = wait_loop poll latency timeout_seconds (k + m) (elapsed + elapsed_after latency k m)"
proof (induction m arbitrary: k elapsed)
  case 0
  then show ?case by simp
next
  case (Suc m)
  have nn: "0 \<le> elapsed_after latency (Suc k) m"
    using elapsed_after_lower [of m latency "Suc k"] by linarith
  have lt: "elapsed < timeout_seconds" using Suc.prems(2) nn by simp
  have p: "pending (poll k)" using Suc.prems(1) by force
  have rest: "\<forall>j<m. pending (poll (Suc k + j))"
  proof (intro allI impI)
    fix j assume "j < m"
    then have "pending (poll (k + Suc j))" using Suc.prems(1) by blast
    then show "pending (poll (Suc k + j))" by simp
  qed
  have t: "elapsed + int (latency k) + 10 + elapsed_after latency (Suc k) m < timeout_seconds"
    using Suc.prems(2) by simp
  have "wait_loop poll latency timeout_seconds k elapsed
          = wait_loop poll latency timeout_seconds (Suc k) (elapsed + int (latency k) + 10)"
    using wait_loop_step [of elapsed timeout_seconds poll k latency] lt p by simp
  also have "\<dots> = wait_loop poll latency timeout_seconds (Suc k + m)
                      (elapsed + int (latency k) + 10 + elapsed_after latency (Suc k) m)"
    by (rule Suc.IH [OF rest t])
  finally show ?case by (simp add: add.assoc)
qed

lemma wait_loop_timeout:
  "\<forall>j<m. pending (poll (k + j)) \<Longrightarrow>
   timeout_seconds \<le> elapsed + elapsed_after latency k m \<Longrightarrow>
   wait_loop poll latency timeout_seconds k elapsed
     = (False, [Job_monitoring_timed_out timeout_seconds])"
proof (induction m arbitrary: k elapsed)
  case 0
  then show ?case
    by (simp add: wait_loop.simps [of poll latency timeout_seconds k elapsed])
next
  case (Suc m)
  show ?case
  proof (cases "elapsed < timeout_seconds")
    case False
    then show ?thesis
      by (simp add: wait_loop.simps [of poll latency timeout_seconds k elapsed])
  next
    case True
    have p: "pending (poll k)" using Suc.prems(1) by force
    have rest: "\<forall>j<m. pending (poll (Suc k + j))"
    proof (intro allI impI)
      fix j assume "j < m"
      then have "pending (poll (k + Suc j))" using Suc.prems(1) by blast
      then show "pending (poll (Suc k + j))" by simp
    qed
    have t: "timeout_seconds
               \<le> elapsed + int (latency k) + 10 + elapsed_after latency (Suc k) m"
      using Suc.prems(2) by simp
    have "wait_loop poll latency timeout_seconds k elapsed
            = wait_loop poll latency timeout_seconds (Suc k) (elapsed + int (latency k) + 10)"
      using wait_loop_step [of elapsed timeout_seconds poll k latency] True p by simp
    then show ?thesis using Suc.IH [OF rest t] by simp
  qed
qed

lemma wait_loop_final:
  assumes "elapsed < timeout_seconds"
  shows "wait_loop poll latency timeout_seconds k elapsed =
    (case poll k of
       Inl e \<Rightarrow> (False, [Error_monitoring_job])
     | Inr status \<Rightarrow>
         if status = 5 then (True, [])
         else if status = 4 \<or> status = 6 then (False, [Job_failed_with_status status])
         else wait_loop poll latency timeout_seconds (k + 1)
                (elapsed + int (latency k) + 10))"
  using assms by (simp add: wait_loop.simps [of poll latency timeout_seconds k elapsed])

lemma monitor_reaches:
  assumes "\<forall>j<m. pending (poll j)" and "elapsed_after latency 0 m < timeout_seconds"
  shows "wait_for_job_completion True True poll latency timeout_seconds =
    (case poll m of
       Inl e \<Rightarrow> (False, [Error_monitoring_job])
     | Inr status \<Rightarrow>
         if status = 5 then (True, [])
         else if status = 4 \<or> status = 6 then (False, [Job_failed_with_status status])
         else wait_loop poll latency timeout_seconds (m + 1)
                (elapsed_after latency 0 m + int (latency m) + 10))"
proof -
  have "wait_loop poll latency timeout_seconds 0 0
          = wait_loop poll latency timeout_seconds (0 + m) (0 + elapsed_after latency 0 m)"
    using assms by (intro wait_loop_skip) simp_all
  then show ?thesis
    using wait_loop_final [of "elapsed_after latency 0 m" timeout_seconds poll latency m]
      assms(2)
    by (simp add: wait_for_job_completion_def)
qed

section \<open>Claims about the job monitor\<close>

text \<open>
  C9, as stated: a timeout is reported as an outcome distinct from job failure. With the
  default timeout, a job that stays running and a job that has failed both make the monitor
  return \<open>False\<close>; the two runs differ in the log line only.
\<close>

theorem timeout_outcome_counterexample:
  "wait_for_job_completion True True always_running no_latency default_timeout_seconds
     = (False, [Job_monitoring_timed_out 300])
   \<and> wait_for_job_completion True True fails_at_once no_latency default_timeout_seconds
     = (False, [Job_failed_with_status 4])"
  by code_simp

text \<open>
  C9, as amended. The monitor always returns, and its result is fixed as follows. Without a
  client it returns \<open>False\<close>; when the service cannot be obtained it returns \<open>False\<close>.
  Otherwise let poll \<open>m\<close> be the first one that does not return a pending status. If it is
  reached before the timeout has elapsed, the monitor returns \<open>True\<close> for status 5
  (success), \<open>False\<close> with the error line "Job failed with status" for status 4 or 6 (failed,
  cancelled), and \<open>False\<close> when the poll raises. If the timeout has elapsed after \<open>m\<close>
  pending polls, the monitor returns \<open>False\<close> with the warning line "Job monitoring timed
  out" and no job-failed line. Each turn of the loop takes at least ten seconds, so one of
  the two happens. A timeout and a job failure give the same return value and are told
  apart by the log line only.
\<close>

theorem monitor_outcomes:
  "wait_for_job_completion False service_ok poll latency timeout_seconds
     = (False, [Client_not_initialized])
   \<and> wait_for_job_completion True False poll latency timeout_seconds
     = (False, [Error_monitoring_job])
   \<and> ((\<forall>j<m. pending (poll j)) \<and> elapsed_after latency 0 m < timeout_seconds
        \<and> poll m = Inr 5 \<longrightarrow>
      wait_for_job_completion True True poll latency timeout_seconds = (True, []))
   \<and> ((\<forall>j<m. pending (poll j)) \<and> elapsed_after latency 0 m < timeout_seconds
        \<and> poll m = Inr status \<and> (status = 4 \<or> status = 6) \<longrightarrow>
      wait_for_job_completion True True poll latency timeout_seconds
        = (False, [Job_failed_with_status status]))
   \<and> ((\<forall>j<m. pending (poll j)) \<and> elapsed_after latency 0 m < timeout_seconds
        \<and> poll m = Inl e \<longrightarrow>
      wait_for_job_completion True True poll latency timeout_seconds
        = (False, [Error_monitoring_job]))
   \<and> ((\<forall>j<m. pending (poll j)) \<and> timeout_seconds \<le> elapsed_after latency 0 m \<longrightarrow>
      wait_for_job_completion True True poll latency timeout_seconds
        = (False, [Job_monitoring_timed_out timeout_seconds]))
   \<and> int (10 * m) \<le> elapsed_after latency 0 m"
proof -
  have a: "wait_for_job_completion False service_ok poll latency timeout_seconds
     = (False, [Client_not_initialized])"
    by (simp add: wait_for_job_completion_def)
  have b: "wait_for_job_completion True False poll latency timeout_seconds
     = (False, [Error_monitoring_job])"
    by (simp add: wait_for_job_completion_def)
  have c: "(\<forall>j<m. pending (poll j)) \<and> elapsed_after latency 0 m < timeout_seconds
        \<and> poll m = Inr 5 \<longrightarrow>
      wait_for_job_completion True True poll latency timeout_seconds = (True, [])"
    using monitor_reaches [of m poll latency timeout_seconds] by auto
  have d: "(\<forall>j<m. pending (poll j)) \<and> elapsed_after latency 0 m < timeout_seconds
        \<and> poll m = Inr status \<and> (status = 4 \<or> status = 6) \<longrightarrow>
      wait_for_job_completion True True poll latency timeout_seconds
        = (False, [Job_failed_with_status status])"
    using monitor_reaches [of m poll latency timeout_seconds] by auto
  have f: "(\<forall>j<m. pending (poll j)) \<and> elapsed_after latency 0 m < timeout_seconds
        \<and> poll m = Inl e \<longrightarrow>
      wait_for_job_completion True True poll latency timeout_seconds
        = (False, [Error_monitoring_job])"
    using monitor_reaches [of m poll latency timeout_seconds] by auto
  have g: "(\<forall>j<m. pending (poll j)) \<and> timeout_seconds \<le> elapsed_after latency 0 m \<longrightarrow>
      wait_for_job_completion True True poll latency timeout_seconds
        = (False, [Job_monitoring_timed_out timeout_seconds])"
    using wait_loop_timeout [of m poll 0 timeout_seconds 0 latency]
    by (simp add: wait_for_job_completion_def)
  show ?thesis using a b c d f g elapsed_after_lower [of m latency 0] by blast
qed

theorem monitor_outcomes_witness:
  "wait_for_job_completion True True fails_at_third no_latency 300
     = (False, [Job_failed_with_status 4])
   \<and> wait_for_job_completion True True succeeds_at_third no_latency 300 = (True, [])
   \<and> wait_for_job_completion True True raises_at_second no_latency 300
     = (False, [Error_monitoring_job])
   \<and> wait_for_job_completion True True always_running no_latency 300
     = (False, [Job_monitoring_timed_out 300])
   \<and> elapsed_after no_latency 0 2 = 20
   \<and> elapsed_after no_latency 0 30 = 300"
proof -
  have e2: "elapsed_after no_latency 0 2 = 20" by code_simp
  have e1: "elapsed_after no_latency 0 1 = 10" by code_simp
  have e30: "elapsed_after no_latency 0 30 = 300" by code_simp
  have p1: "\<forall>j<2. pending (fails_at_third j)"
    by (simp add: fails_at_third_def pending_def)
  have p2: "\<forall>j<2. pending (succeeds_at_third j)"
    by (simp add: succeeds_at_third_def pending_def)
  have p3: "\<forall>j<1. pending (raises_at_second j)"
    by (simp add: raises_at_second_def pending_def)
  have p4: "\<forall>j<30. pending (always_running j)"
    by (simp add: always_running_def pending_def)
  have q: "fails_at_third 2 = Inr 4" "succeeds_at_third 2 = Inr 5"
    "raises_at_second 1 = Inl (OtherException ''unavailable'')"
    by (simp_all add: fails_at_third_def succeeds_at_third_def raises_at_second_def)
  have a: "wait_for_job_completion True True fails_at_third no_latency 300
     = (False, [Job_failed_with_status 4])"
    using monitor_outcomes [where m = 2 and poll = fails_at_third and latency = no_latency
          and timeout_seconds = 300 and status = 4,
        THEN conjunct2, THEN conjunct2, THEN conjunct2, THEN conjunct1]
      p1 e2 q(1)
    by simp
  have b: "wait_for_job_completion True True succeeds_at_third no_latency 300 = (True, [])"
    using monitor_outcomes [where m = 2 and poll = succeeds_at_third and latency = no_latency
          and timeout_seconds = 300,
        THEN conjunct2, THEN conjunct2, THEN conjunct1]
      p2 e2 q(2)
    by simp
  have c: "wait_for_job_completion True True raises_at_second no_latency 300
     = (False, [Error_monitoring_job])"
    using monitor_outcomes [where m = 1 and poll = raises_at_second and latency = no_latency
          and timeout_seconds = 300 and e = "OtherException ''unavailable''",
        THEN conjunct2, THEN conjunct2, THEN conjunct2, THEN conjunct2,
        THEN conjunct1]
      p3 e1 q(3)
    by simp
  have d: "wait_for_job_completion True True always_running no_latency 300
     = (False, [Job_monitoring_timed_out 300])"
    using monitor_outcomes [where m = 30 and poll = always_running and latency = no_latency
          and timeout_seconds = 300,
        THEN conjunct2, THEN conjunct2, THEN conjunct2, THEN conjunct2,
        THEN conjunct2, THEN conjunct1]
      p4 e30
    by simp
  show ?thesis using a b c d e2 e30 by blast
qed

end
